theory Spec2Isabelle
  imports Main "HOL-Library.Log_Nat" "HOL-Library.Multiset" "HOL-Library.AList"
begin

section \<open>Python numbers\<close>

text \<open>
  The tracker (\<^verbatim>\<open>track_process_resources.py\<close>) computes with Python's unbounded
  \<^verbatim>\<open>int\<close> (modelled as \<^typ>\<open>int\<close>) and with Python's \<^verbatim>\<open>float\<close>, an IEEE-754 binary64
  number. A float is modelled by its value: a rational for a finite float, the two
  infinities, and not-a-number. Every arithmetic result is rounded to the nearest
  binary64 value, ties to even, as the hardware does. The sign of a zero is not
  modelled; the program never inspects it.
\<close>

datatype pyfloat = Fin rat | PInf | NInf | NaN

datatype py_error = ZeroDivisionError | OverflowError

definition pow2 :: "int \<Rightarrow> rat" where
  "pow2 e = (if 0 \<le> e then 2 ^ nat e else 1 / 2 ^ nat (- e))"

definition round_half_even :: "rat \<Rightarrow> int" where
  "round_half_even x =
     (let f = \<lfloor>x\<rfloor>; d = x - of_int f
      in if d < 1 / 2 then f
         else if 1 / 2 < d then f + 1
         else if even f then f else f + 1)"

text \<open>
  \<open>ilog2 x\<close> is the binary exponent \<open>k\<close> of \<open>x \<noteq> 0\<close>, with \<open>2 ^ k \<le> \<bar>x\<bar> < 2 ^ (k + 1)\<close>
  (lemma \<open>ilog2_bounds\<close> below), computed from the bit lengths of the numerator and the
  denominator.
\<close>

definition ilog2 :: "rat \<Rightarrow> int" where
  "ilog2 x =
     (let (p, q) = quotient_of \<bar>x\<bar>; k = bitlen p - bitlen q
      in if pow2 k \<le> \<bar>x\<bar> then k else k - 1)"

definition inf_of :: "bool \<Rightarrow> pyfloat" where
  "inf_of neg = (if neg then NInf else PInf)"

text \<open>
  Rounding to binary64. A finite binary64 number is \<open>m * 2 ^ e\<close> with \<open>\<bar>m\<bar> < 2 ^ 53\<close> and
  \<open>- 1074 \<le> e \<le> 971\<close>. The exponent of the unit in the last place of \<open>x\<close> is
  \<open>ilog2 x - 52\<close>, and \<open>- 1074\<close> for a subnormal number; \<open>x\<close> is rounded to the nearest
  multiple of that unit, ties to even. The result overflows to an infinity when it
  reaches \<open>2 ^ 1024\<close>: the exponent is above \<open>971\<close>, or it is \<open>971\<close> and the significand
  was rounded up to \<open>2 ^ 53\<close>. Lemma \<open>round64_error\<close> below bounds the rounding error by
  half a unit in the last place, and lemma \<open>round64_of_int\<close> shows that the integers up
  to \<open>2 ^ 53\<close> are not changed.
\<close>

definition round64 :: "rat \<Rightarrow> pyfloat" where
  "round64 x =
     (if x = 0 then Fin 0
      else let e = max (ilog2 x - 52) (- 1074);
               m = round_half_even (x / pow2 e)
           in if 971 < e \<or> (e = 971 \<and> \<bar>m\<bar> = 2 ^ 53) then inf_of (x < 0)
              else Fin (of_int m * pow2 e))"

text \<open>Comparisons: every comparison with not-a-number is false.\<close>

fun flt :: "pyfloat \<Rightarrow> pyfloat \<Rightarrow> bool" where
  "flt NaN _ = False"
| "flt _ NaN = False"
| "flt (Fin a) (Fin b) = (a < b)"
| "flt PInf _ = False"
| "flt _ NInf = False"
| "flt _ PInf = True"
| "flt NInf _ = True"

definition fgt :: "pyfloat \<Rightarrow> pyfloat \<Rightarrow> bool" where
  "fgt a b = flt b a"

fun fle :: "pyfloat \<Rightarrow> pyfloat \<Rightarrow> bool" where
  "fle NaN _ = False"
| "fle _ NaN = False"
| "fle (Fin a) (Fin b) = (a \<le> b)"
| "fle NInf _ = True"
| "fle _ PInf = True"
| "fle PInf _ = False"
| "fle _ NInf = False"

fun is_neg :: "pyfloat \<Rightarrow> bool" where
  "is_neg (Fin a) = (a < 0)"
| "is_neg NInf = True"
| "is_neg _ = False"

fun fneg :: "pyfloat \<Rightarrow> pyfloat" where
  "fneg (Fin a) = Fin (- a)"
| "fneg PInf = NInf"
| "fneg NInf = PInf"
| "fneg NaN = NaN"

fun fadd :: "pyfloat \<Rightarrow> pyfloat \<Rightarrow> pyfloat" where
  "fadd NaN _ = NaN"
| "fadd _ NaN = NaN"
| "fadd (Fin a) (Fin b) = round64 (a + b)"
| "fadd PInf NInf = NaN"
| "fadd NInf PInf = NaN"
| "fadd PInf _ = PInf"
| "fadd _ PInf = PInf"
| "fadd NInf _ = NInf"
| "fadd _ NInf = NInf"

definition fsub :: "pyfloat \<Rightarrow> pyfloat \<Rightarrow> pyfloat" where
  "fsub a b = fadd a (fneg b)"

fun fmul :: "pyfloat \<Rightarrow> pyfloat \<Rightarrow> pyfloat" where
  "fmul NaN _ = NaN"
| "fmul _ NaN = NaN"
| "fmul (Fin a) (Fin b) = round64 (a * b)"
| "fmul a b = (if a = Fin 0 \<or> b = Fin 0 then NaN else inf_of (is_neg a \<noteq> is_neg b))"

text \<open>
  \<^verbatim>\<open>a / b\<close> on two floats tests the divisor first and raises \<^verbatim>\<open>ZeroDivisionError\<close> when
  \<^verbatim>\<open>b\<close> is zero, whatever \<^verbatim>\<open>a\<close> is; it never overflows to an exception: too large a
  quotient is an infinity.
\<close>

fun fdiv :: "pyfloat \<Rightarrow> pyfloat \<Rightarrow> py_error + pyfloat" where
  "fdiv (Fin a) (Fin b) = (if b = 0 then Inl ZeroDivisionError else Inr (round64 (a / b)))"
| "fdiv NaN (Fin b) = (if b = 0 then Inl ZeroDivisionError else Inr NaN)"
| "fdiv a (Fin b) =
     (if b = 0 then Inl ZeroDivisionError else Inr (inf_of (is_neg a \<noteq> (b < 0))))"
| "fdiv NaN _ = Inr NaN"
| "fdiv _ NaN = Inr NaN"
| "fdiv (Fin a) _ = Inr (Fin 0)"
| "fdiv _ _ = Inr NaN"

text \<open>
  \<^verbatim>\<open>float(n)\<close>, also the conversion of an \<^verbatim>\<open>int\<close> operand that meets a float: correctly
  rounded, \<^verbatim>\<open>OverflowError\<close> when the integer is too large for a float.
\<close>

definition float_of_int :: "int \<Rightarrow> py_error + pyfloat" where
  "float_of_int n =
     (case round64 (of_int n) of Fin r \<Rightarrow> Inr (Fin r) | _ \<Rightarrow> Inl OverflowError)"

text \<open>\<^verbatim>\<open>a / b\<close> on two ints: the correctly rounded quotient.\<close>

definition int_truediv :: "int \<Rightarrow> int \<Rightarrow> py_error + pyfloat" where
  "int_truediv a b =
     (if b = 0 then Inl ZeroDivisionError
      else case round64 (of_int a / of_int b) of
             Fin r \<Rightarrow> Inr (Fin r)
           | _ \<Rightarrow> Inl OverflowError)"

text \<open>\<^verbatim>\<open>n / x\<close> and \<^verbatim>\<open>x / n\<close> with \<^verbatim>\<open>n\<close> an int and \<^verbatim>\<open>x\<close> a float: the int is converted first.\<close>

definition int_div_float :: "int \<Rightarrow> pyfloat \<Rightarrow> py_error + pyfloat" where
  "int_div_float n x = (case float_of_int n of Inl e \<Rightarrow> Inl e | Inr y \<Rightarrow> fdiv y x)"

definition float_div_int :: "pyfloat \<Rightarrow> int \<Rightarrow> py_error + pyfloat" where
  "float_div_int x n = (case float_of_int n of Inl e \<Rightarrow> Inl e | Inr y \<Rightarrow> fdiv x y)"

text \<open>\<^verbatim>\<open>max(0.0, x)\<close>: Python's \<^verbatim>\<open>max\<close> keeps its first argument unless a later one is greater.\<close>

definition max0 :: "pyfloat \<Rightarrow> pyfloat" where
  "max0 x = (if fgt x (Fin 0) then x else Fin 0)"

section \<open>MetricAccumulator\<close>

text \<open>
  \<^verbatim>\<open>
  @dataclass
  class MetricAccumulator:
      minimum: float = float("inf")
      maximum: float = float("-inf")
      total: float = 0.0
      count: int = 0
  \<close>
  The fields \<^verbatim>\<open>total\<close> and \<^verbatim>\<open>count\<close> are \<open>total_sum\<close> and \<open>count_n\<close> here.
\<close>

record MetricAccumulator =
  minimum :: pyfloat
  maximum :: pyfloat
  total_sum :: pyfloat
  count_n :: int

definition new_accumulator :: MetricAccumulator where
  "new_accumulator = \<lparr>minimum = PInf, maximum = NInf, total_sum = Fin 0, count_n = 0\<rparr>"

text \<open>
  \<^verbatim>\<open>
  def add(self, value):
      if value is None:
          return
      if value < self.minimum:
          self.minimum = value
      if value > self.maximum:
          self.maximum = value
      self.total += value
      self.count += 1
  \<close>
\<close>

fun add :: "MetricAccumulator \<Rightarrow> pyfloat option \<Rightarrow> MetricAccumulator" where
  "add acc None = acc"
| "add acc (Some v) =
     \<lparr>minimum = (if flt v (minimum acc) then v else minimum acc),
      maximum = (if fgt v (maximum acc) then v else maximum acc),
      total_sum = fadd (total_sum acc) v,
      count_n = count_n acc + 1\<rparr>"

text \<open>
  \<^verbatim>\<open>
  def as_tuple(self):
      if self.count == 0:
          return (0.0, 0.0, 0.0)
      return (self.minimum, self.maximum, self.total / self.count)
  \<close>
\<close>

definition as_tuple :: "MetricAccumulator \<Rightarrow> py_error + (pyfloat \<times> pyfloat \<times> pyfloat)" where
  "as_tuple acc =
     (if count_n acc = 0 then Inr (Fin 0, Fin 0, Fin 0)
      else case float_div_int (total_sum acc) (count_n acc) of
             Inl e \<Rightarrow> Inl e
           | Inr avg \<Rightarrow> Inr (minimum acc, maximum acc, avg))"

text \<open>A sequence of \<^verbatim>\<open>add\<close> calls on one accumulator, in the order of the list.\<close>

fun add_all :: "MetricAccumulator \<Rightarrow> pyfloat option list \<Rightarrow> MetricAccumulator" where
  "add_all acc [] = acc"
| "add_all acc (v # vs) = add_all (add acc v) vs"

text \<open>The values of a stream that are present, in order.\<close>

fun present :: "'a option list \<Rightarrow> 'a list" where
  "present [] = []"
| "present (None # vs) = present vs"
| "present (Some v # vs) = v # present vs"

text \<open>The arithmetic mean of a list of numbers.\<close>

definition exact_mean :: "rat list \<Rightarrow> rat" where
  "exact_mean xs = sum_list xs / of_nat (length xs)"

text \<open>
  The running sum of a list of floats is exact when every value is finite and no
  addition rounds: each partial sum is itself a binary64 number.
\<close>

fun exact_sums :: "rat \<Rightarrow> pyfloat list \<Rightarrow> bool" where
  "exact_sums s [] = True"
| "exact_sums s (Fin x # xs) = (round64 (s + x) = Fin (s + x) \<and> exact_sums (s + x) xs)"
| "exact_sums s (_ # xs) = False"

text \<open>What \<^verbatim>\<open>add\<close> does to the minimum and to the maximum, one value at a time.\<close>

definition min_step :: "pyfloat \<Rightarrow> pyfloat \<Rightarrow> pyfloat" where
  "min_step m v = (if flt v m then v else m)"

definition max_step :: "pyfloat \<Rightarrow> pyfloat \<Rightarrow> pyfloat" where
  "max_step m v = (if fgt v m then v else m)"

fun rat_of :: "pyfloat \<Rightarrow> rat" where
  "rat_of (Fin x) = x"
| "rat_of _ = 0"

section \<open>ProcessStats, PrevSample and one sampling pass\<close>

record ProcessStats =
  pid :: int
  name :: string
  ppid :: int
  first_seen :: pyfloat
  last_seen :: pyfloat
  cpu :: MetricAccumulator
  mem :: MetricAccumulator
  disk :: MetricAccumulator
  xfer :: MetricAccumulator
  current_cpu :: pyfloat
  current_mem :: pyfloat
  current_disk :: pyfloat
  current_xfer :: pyfloat

record PrevSample =
  cpu_ticks :: int
  disk_bytes :: int
  xfer_bytes :: int
  timestamp :: pyfloat

text \<open>
  \<^verbatim>\<open>ProcessStats(pid=pid, name=name, ppid=ppid, first_seen=now, last_seen=now)\<close>: the
  other fields take the defaults of the dataclass.
\<close>

definition new_ProcessStats :: "int \<Rightarrow> string \<Rightarrow> int \<Rightarrow> pyfloat \<Rightarrow> ProcessStats" where
  "new_ProcessStats p nm pp now =
     \<lparr>pid = p, name = nm, ppid = pp, first_seen = now, last_seen = now,
      cpu = new_accumulator, mem = new_accumulator,
      disk = new_accumulator, xfer = new_accumulator,
      current_cpu = Fin 0, current_mem = Fin 0, current_disk = Fin 0, current_xfer = Fin 0\<rparr>"

text \<open>
  A Python \<^verbatim>\<open>dict\<close> is an association list in insertion order: \<^verbatim>\<open>d.get(k)\<close> is
  \<^term>\<open>map_of d k\<close> and \<^verbatim>\<open>d[k] = v\<close> is \<^term>\<open>AList.update k v d\<close>, which replaces the
  value of a key in place and appends a new key.
\<close>

type_synonym ('k, 'v) dict = "('k \<times> 'v) list"

text \<open>
  What the operating system answers during one pass. \<^verbatim>\<open>pids_in_service_cgroup\<close> returns
  a set: the list is the order in which the \<^verbatim>\<open>for\<close> loop meets its elements.
  \<^verbatim>\<open>read_stat\<close> answers \<^verbatim>\<open>(name, ppid, total_cpu_ticks, rss_pages)\<close> and
  \<^verbatim>\<open>read_io_counters\<close> answers \<^verbatim>\<open>(disk_total, xfer_total)\<close>; \<^verbatim>\<open>None\<close> is a failed read.
  How the three functions read and parse the files of \<^verbatim>\<open>/proc\<close> and \<^verbatim>\<open>/sys/fs/cgroup\<close> is
  not modelled: their answers are the inputs of a pass.
\<close>

record proc_files =
  pids_in_service_cgroup :: "string \<Rightarrow> int list"
  read_stat :: "int \<Rightarrow> (string \<times> int \<times> int \<times> int) option"
  read_io_counters :: "int \<Rightarrow> (int \<times> int) option"

text \<open>An exception ends the computation: the later steps do not run.\<close>

definition and_then :: "py_error + 'a \<Rightarrow> ('a \<Rightarrow> py_error + 'b) \<Rightarrow> py_error + 'b" where
  "and_then r f = (case r of Inl e \<Rightarrow> Inl e | Inr x \<Rightarrow> f x)"

text \<open>
  Lines 259 to 262 of \<^verbatim>\<open>sample_once\<close>, for one of the two I/O counters:
  \<^verbatim>\<open>
  if disk_total is not None:
      disk_bps = (disk_total - prev.disk_bytes) / dt
  \<close>
\<close>

definition io_rate :: "int option \<Rightarrow> int \<Rightarrow> pyfloat \<Rightarrow> py_error + pyfloat option" where
  "io_rate total_now prev_bytes dt =
     (case total_now of
        None \<Rightarrow> Inr None
      | Some t \<Rightarrow> and_then (int_div_float (t - prev_bytes) dt) (\<lambda>r. Inr (Some r)))"

text \<open>
  Lines 250 to 262: the three rates before clamping.
  \<^verbatim>\<open>
  prev = prev_by_pid.get(pid)
  cpu_pct = None; disk_bps = None; xfer_bps = None
  if prev is not None:
      dt = now - prev.timestamp
      if dt > 0:
          cpu_pct = ((cpu_ticks - prev.cpu_ticks) / clk_tck) / dt * 100.0
          ...
  \<close>
\<close>

definition derive_rates ::
  "PrevSample option \<Rightarrow> pyfloat \<Rightarrow> int \<Rightarrow> int \<Rightarrow> int option \<Rightarrow> int option \<Rightarrow>
   py_error + (pyfloat option \<times> pyfloat option \<times> pyfloat option)" where
  "derive_rates prev now clk_tck ticks disk_total xfer_total =
     (case prev of
        None \<Rightarrow> Inr (None, None, None)
      | Some p \<Rightarrow>
          let dt = fsub now (timestamp p)
          in if fgt dt (Fin 0) then
               and_then (int_truediv (ticks - cpu_ticks p) clk_tck) (\<lambda>q.
               and_then (fdiv q dt) (\<lambda>q'.
               and_then (io_rate disk_total (disk_bytes p) dt) (\<lambda>disk_bps.
               and_then (io_rate xfer_total (xfer_bytes p) dt) (\<lambda>xfer_bps.
                 Inr (Some (fmul q' (Fin 100)), disk_bps, xfer_bps)))))
             else Inr (None, None, None))"

text \<open>
  Lines 264 to 280, for one rate: the value given to the accumulator and the value
  stored as the current one.
  \<^verbatim>\<open>
  if cpu_pct is not None:
      cpu_pct = max(0.0, cpu_pct)
      record.current_cpu = cpu_pct
  else:
      record.current_cpu = 0.0
  \<close>
\<close>

fun clamp_rate :: "pyfloat option \<Rightarrow> pyfloat option \<times> pyfloat" where
  "clamp_rate None = (None, Fin 0)"
| "clamp_rate (Some r) = (Some (max0 r), max0 r)"

text \<open>
  Lines 288 to 308: the snapshot stored for the next pass. \<^verbatim>\<open>prev.disk_bytes if prev else 0\<close>
  tests \<^verbatim>\<open>prev\<close> against \<^verbatim>\<open>None\<close>: an instance of the dataclass is always true.
\<close>

definition next_prev ::
  "PrevSample option \<Rightarrow> int \<Rightarrow> int option \<Rightarrow> int option \<Rightarrow> pyfloat \<Rightarrow> PrevSample" where
  "next_prev prev ticks disk_total xfer_total now =
     (if disk_total \<noteq> None \<or> xfer_total \<noteq> None then
        \<lparr>cpu_ticks = ticks,
         disk_bytes = (case disk_total of
                         Some d \<Rightarrow> d
                       | None \<Rightarrow> (case prev of Some p \<Rightarrow> disk_bytes p | None \<Rightarrow> 0)),
         xfer_bytes = (case xfer_total of
                         Some x \<Rightarrow> x
                       | None \<Rightarrow> (case prev of Some p \<Rightarrow> xfer_bytes p | None \<Rightarrow> 0)),
         timestamp = now\<rparr>
      else case prev of
        None \<Rightarrow> \<lparr>cpu_ticks = ticks, disk_bytes = 0, xfer_bytes = 0, timestamp = now\<rparr>
      | Some p \<Rightarrow>
          \<lparr>cpu_ticks = ticks, disk_bytes = disk_bytes p, xfer_bytes = xfer_bytes p,
           timestamp = now\<rparr>)"

text \<open>
  Lines 231 to 308: the body of the loop for a pid whose \<^verbatim>\<open>read_stat\<close> succeeded, from
  the record and the snapshot found in the two dictionaries to the record and the
  snapshot left there. The record is an object that the dictionary holds, so the
  assignments to its fields are updates of the stored record.
\<close>

definition sample_read ::
  "int \<Rightarrow> pyfloat \<Rightarrow> int \<Rightarrow> int \<Rightarrow> string \<times> int \<times> int \<times> int \<Rightarrow> (int \<times> int) option \<Rightarrow>
   ProcessStats option \<Rightarrow> PrevSample option \<Rightarrow> py_error + (ProcessStats \<times> PrevSample)" where
  "sample_read p now clk_tck page_size stat io_counters found prev =
     (case stat of (nm, pp, ticks, rss_pages) \<Rightarrow>
        let disk_total = map_option fst io_counters;
            xfer_total = map_option snd io_counters;
            rss_bytes = rss_pages * page_size;
            record = (case found of
                        None \<Rightarrow> new_ProcessStats p nm pp now
                      | Some r \<Rightarrow> r\<lparr>last_seen := now\<rparr>)
        in and_then (derive_rates prev now clk_tck ticks disk_total xfer_total)
             (\<lambda>(cpu_pct, disk_bps, xfer_bps).
                and_then (float_of_int rss_bytes) (\<lambda>rss.
                  Inr (record\<lparr>current_cpu := snd (clamp_rate cpu_pct),
                              current_disk := snd (clamp_rate disk_bps),
                              current_xfer := snd (clamp_rate xfer_bps),
                              current_mem := rss,
                              cpu := add (cpu record) (fst (clamp_rate cpu_pct)),
                              mem := add (mem record) (Some rss),
                              disk := add (disk record) (fst (clamp_rate disk_bps)),
                              xfer := add (xfer record) (fst (clamp_rate xfer_bps))\<rparr>,
                       next_prev prev ticks disk_total xfer_total now))))"

type_synonym registry = "(int, ProcessStats) dict \<times> (int, PrevSample) dict"

text \<open>Lines 227 to 308: the loop \<^verbatim>\<open>for pid in tracked\<close>; a failed \<^verbatim>\<open>read_stat\<close> skips the pid.\<close>

fun sample_loop ::
  "proc_files \<Rightarrow> pyfloat \<Rightarrow> int \<Rightarrow> int \<Rightarrow> int list \<Rightarrow> registry \<Rightarrow> py_error + registry" where
  "sample_loop os now clk_tck page_size [] reg = Inr reg"
| "sample_loop os now clk_tck page_size (p # ps) (stats_by_pid, prev_by_pid) =
     (case read_stat os p of
        None \<Rightarrow> sample_loop os now clk_tck page_size ps (stats_by_pid, prev_by_pid)
      | Some stat \<Rightarrow>
          and_then
            (sample_read p now clk_tck page_size stat (read_io_counters os p)
               (map_of stats_by_pid p) (map_of prev_by_pid p))
            (\<lambda>(record, snapshot).
               sample_loop os now clk_tck page_size ps
                 (AList.update p record stats_by_pid, AList.update p snapshot prev_by_pid)))"

text \<open>
  \<^verbatim>\<open>sample_once\<close>: its result is the number of tracked pids, and the two dictionaries as
  the pass leaves them.
\<close>

definition sample_once ::
  "proc_files \<Rightarrow> string \<Rightarrow> pyfloat \<Rightarrow> int \<Rightarrow> int \<Rightarrow> registry \<Rightarrow> py_error + (int \<times> registry)" where
  "sample_once os service now clk_tck page_size reg =
     (let tracked = pids_in_service_cgroup os service
      in if tracked = [] then Inr (0, reg)
         else and_then (sample_loop os now clk_tck page_size tracked reg)
                (\<lambda>reg'. Inr (int (length tracked), reg')))"

section \<open>The session and the final report\<close>

text \<open>
  The loop of \<^verbatim>\<open>main\<close> (and of \<^verbatim>\<open>render_live\<close>) calls \<^verbatim>\<open>sample_once\<close> until the stop flag,
  the duration or the quit key ends it. A session is the list of the passes it made:
  the clock reading of each and what the operating system answered during it.
\<close>

fun run_passes ::
  "string \<Rightarrow> int \<Rightarrow> int \<Rightarrow> (pyfloat \<times> proc_files) list \<Rightarrow> registry \<Rightarrow> py_error + registry" where
  "run_passes service clk_tck page_size [] reg = Inr reg"
| "run_passes service clk_tck page_size ((now, os) # rest) reg =
     and_then (sample_once os service now clk_tck page_size reg)
       (\<lambda>(tracked_count, reg'). run_passes service clk_tck page_size rest reg')"

type_synonym triplet = "pyfloat \<times> pyfloat \<times> pyfloat"

record report_row =
  row_pid :: int
  row_name :: string
  row_ppid :: int
  row_cpu :: triplet
  row_mem_mb :: triplet
  row_disk :: triplet
  row_xfer :: triplet

text \<open>Lines 435 to 454 of \<^verbatim>\<open>main\<close>: the values printed on the line of one pid.\<close>

definition report_row_of :: "int \<Rightarrow> ProcessStats \<Rightarrow> py_error + report_row" where
  "report_row_of p rec =
     and_then (as_tuple (cpu rec)) (\<lambda>cpu_t.
     and_then (as_tuple (mem rec)) (\<lambda>(mem_min_b, mem_max_b, mem_avg_b).
     and_then (float_div_int mem_min_b (1024 * 1024)) (\<lambda>mem_min.
     and_then (float_div_int mem_max_b (1024 * 1024)) (\<lambda>mem_max.
     and_then (float_div_int mem_avg_b (1024 * 1024)) (\<lambda>mem_avg.
     and_then (as_tuple (disk rec)) (\<lambda>disk_t.
     and_then (as_tuple (xfer rec)) (\<lambda>xfer_t.
       Inr \<lparr>row_pid = p, row_name = take 20 (name rec), row_ppid = ppid rec,
            row_cpu = cpu_t, row_mem_mb = (mem_min, mem_max, mem_avg),
            row_disk = disk_t, row_xfer = xfer_t\<rparr>)))))))"

fun report_rows :: "(int \<times> ProcessStats) list \<Rightarrow> py_error + report_row list" where
  "report_rows [] = Inr []"
| "report_rows ((p, rec) # rest) =
     and_then (report_row_of p rec) (\<lambda>row.
     and_then (report_rows rest) (\<lambda>rows. Inr (row # rows)))"

text \<open>
  \<^verbatim>\<open>main\<close>, from the parsed arguments to the exit status and the rows of the final table.
  \<^verbatim>\<open>for pid in sorted(stats_by_pid)\<close> visits the entries by ascending pid.
\<close>

definition main ::
  "pyfloat \<Rightarrow> string \<Rightarrow> int \<Rightarrow> int \<Rightarrow> (pyfloat \<times> proc_files) list \<Rightarrow>
   py_error + (int \<times> report_row list)" where
  "main interval service clk_tck page_size passes =
     (if fle interval (Fin 0) then Inr (2, [])
      else and_then (run_passes service clk_tck page_size passes ([], []))
             (\<lambda>(stats_by_pid, prev_by_pid).
                if stats_by_pid = [] then Inr (1, [])
                else and_then (report_rows (sort_key fst stats_by_pid))
                       (\<lambda>rows. Inr (0, rows))))"

text \<open>A pid is read in a pass when it is tracked and its \<^verbatim>\<open>read_stat\<close> succeeds.\<close>

definition read_in :: "string \<Rightarrow> int \<Rightarrow> pyfloat \<times> proc_files \<Rightarrow> bool" where
  "read_in service p pass =
     (p \<in> set (pids_in_service_cgroup (snd pass) service) \<and> read_stat (snd pass) p \<noteq> None)"

text \<open>The tracked pids of a pass come from a set: no pid is met twice.\<close>

definition well_formed :: "string \<Rightarrow> pyfloat \<times> proc_files \<Rightarrow> bool" where
  "well_formed service pass = distinct (pids_in_service_cgroup (snd pass) service)"

section \<open>An example session\<close>

text \<open>
  The operating system of the examples: one tracked process, or none. The example
  session tracks pid 100 with 100 ticks per second and pages of 4096 bytes, at the times
  0, 1, 2 and 3: the cpu ticks are 0, 50, 150, 100; the I/O read gives (1000, 5000),
  fails, gives (1400, 5600) and then (1000, 5000); the stat read names the process
  \<open>worker\<close> with parent 1 at first and \<open>renamed\<close> with parent 7 afterwards.
  \<open>example_reg_0\<close> to \<open>example_reg_3\<close> are the two dictionaries after each of these
  passes. \<open>example_reg_a\<close> and \<open>example_reg_b\<close> are those of a session that first reads
  pid 100 at time 1 without I/O counters and then at time 2 with (1400, 5600);
  \<open>example_reg_c\<close> follows \<open>example_reg_1\<close> after a second pass at time 1.
\<close>

definition one_process ::
  "int \<Rightarrow> string \<Rightarrow> int \<Rightarrow> int \<Rightarrow> int \<Rightarrow> (int \<times> int) option \<Rightarrow> proc_files" where
  "one_process p nm pp ticks rss_pages io =
     \<lparr>pids_in_service_cgroup = (\<lambda>service. [p]),
      read_stat = (\<lambda>q. if q = p then Some (nm, pp, ticks, rss_pages) else None),
      read_io_counters = (\<lambda>q. if q = p then io else None)\<rparr>"

definition no_process :: proc_files where
  "no_process =
     \<lparr>pids_in_service_cgroup = (\<lambda>service. []),
      read_stat = (\<lambda>q. None),
      read_io_counters = (\<lambda>q. None)\<rparr>"

definition example_reg_0 :: registry where
  "example_reg_0 =
     ([(100, \<lparr>pid = 100, name = ''worker'', ppid = 1, first_seen = Fin 0, last_seen = Fin 0,
        cpu = \<lparr>minimum = PInf, maximum = NInf, total_sum = Fin 0, count_n = 0\<rparr>,
        mem = \<lparr>minimum = Fin 40960, maximum = Fin 40960, total_sum = Fin 40960, count_n = 1\<rparr>,
        disk = \<lparr>minimum = PInf, maximum = NInf, total_sum = Fin 0, count_n = 0\<rparr>,
        xfer = \<lparr>minimum = PInf, maximum = NInf, total_sum = Fin 0, count_n = 0\<rparr>,
        current_cpu = Fin 0, current_mem = Fin 40960, current_disk = Fin 0,
        current_xfer = Fin 0\<rparr>)],
      [(100, \<lparr>cpu_ticks = 0, disk_bytes = 1000, xfer_bytes = 5000, timestamp = Fin 0\<rparr>)])"

definition example_reg_1 :: registry where
  "example_reg_1 =
     ([(100, \<lparr>pid = 100, name = ''worker'', ppid = 1, first_seen = Fin 0, last_seen = Fin 1,
        cpu = \<lparr>minimum = Fin 50, maximum = Fin 50, total_sum = Fin 50, count_n = 1\<rparr>,
        mem = \<lparr>minimum = Fin 40960, maximum = Fin 40960, total_sum = Fin 81920, count_n = 2\<rparr>,
        disk = \<lparr>minimum = PInf, maximum = NInf, total_sum = Fin 0, count_n = 0\<rparr>,
        xfer = \<lparr>minimum = PInf, maximum = NInf, total_sum = Fin 0, count_n = 0\<rparr>,
        current_cpu = Fin 50, current_mem = Fin 40960, current_disk = Fin 0,
        current_xfer = Fin 0\<rparr>)],
      [(100, \<lparr>cpu_ticks = 50, disk_bytes = 1000, xfer_bytes = 5000, timestamp = Fin 1\<rparr>)])"

definition example_reg_2 :: registry where
  "example_reg_2 =
     ([(100, \<lparr>pid = 100, name = ''worker'', ppid = 1, first_seen = Fin 0, last_seen = Fin 2,
        cpu = \<lparr>minimum = Fin 50, maximum = Fin 100, total_sum = Fin 150, count_n = 2\<rparr>,
        mem = \<lparr>minimum = Fin 40960, maximum = Fin 40960, total_sum = Fin 122880, count_n = 3\<rparr>,
        disk = \<lparr>minimum = Fin 400, maximum = Fin 400, total_sum = Fin 400, count_n = 1\<rparr>,
        xfer = \<lparr>minimum = Fin 600, maximum = Fin 600, total_sum = Fin 600, count_n = 1\<rparr>,
        current_cpu = Fin 100, current_mem = Fin 40960, current_disk = Fin 400,
        current_xfer = Fin 600\<rparr>)],
      [(100, \<lparr>cpu_ticks = 150, disk_bytes = 1400, xfer_bytes = 5600, timestamp = Fin 2\<rparr>)])"


definition example_reg_a :: registry where
  "example_reg_a =
     ([(100, \<lparr>pid = 100, name = ''worker'', ppid = 1, first_seen = Fin 1, last_seen = Fin 1,
        cpu = \<lparr>minimum = PInf, maximum = NInf, total_sum = Fin 0, count_n = 0\<rparr>,
        mem = \<lparr>minimum = Fin 40960, maximum = Fin 40960, total_sum = Fin 40960, count_n = 1\<rparr>,
        disk = \<lparr>minimum = PInf, maximum = NInf, total_sum = Fin 0, count_n = 0\<rparr>,
        xfer = \<lparr>minimum = PInf, maximum = NInf, total_sum = Fin 0, count_n = 0\<rparr>,
        current_cpu = Fin 0, current_mem = Fin 40960, current_disk = Fin 0,
        current_xfer = Fin 0\<rparr>)],
      [(100, \<lparr>cpu_ticks = 50, disk_bytes = 0, xfer_bytes = 0, timestamp = Fin 1\<rparr>)])"

definition example_reg_b :: registry where
  "example_reg_b =
     ([(100, \<lparr>pid = 100, name = ''worker'', ppid = 1, first_seen = Fin 1, last_seen = Fin 2,
        cpu = \<lparr>minimum = Fin 100, maximum = Fin 100, total_sum = Fin 100, count_n = 1\<rparr>,
        mem = \<lparr>minimum = Fin 40960, maximum = Fin 40960, total_sum = Fin 81920, count_n = 2\<rparr>,
        disk = \<lparr>minimum = Fin 1400, maximum = Fin 1400, total_sum = Fin 1400, count_n = 1\<rparr>,
        xfer = \<lparr>minimum = Fin 5600, maximum = Fin 5600, total_sum = Fin 5600, count_n = 1\<rparr>,
        current_cpu = Fin 100, current_mem = Fin 40960, current_disk = Fin 1400,
        current_xfer = Fin 5600\<rparr>)],
      [(100, \<lparr>cpu_ticks = 150, disk_bytes = 1400, xfer_bytes = 5600, timestamp = Fin 2\<rparr>)])"

definition example_reg_c :: registry where
  "example_reg_c =
     ([(100, \<lparr>pid = 100, name = ''worker'', ppid = 1, first_seen = Fin 0, last_seen = Fin 1,
        cpu = \<lparr>minimum = Fin 50, maximum = Fin 50, total_sum = Fin 50, count_n = 1\<rparr>,
        mem = \<lparr>minimum = Fin 40960, maximum = Fin 40960, total_sum = Fin 122880, count_n = 3\<rparr>,
        disk = \<lparr>minimum = PInf, maximum = NInf, total_sum = Fin 0, count_n = 0\<rparr>,
        xfer = \<lparr>minimum = PInf, maximum = NInf, total_sum = Fin 0, count_n = 0\<rparr>,
        current_cpu = Fin 0, current_mem = Fin 40960, current_disk = Fin 0,
        current_xfer = Fin 0\<rparr>)],
      [(100, \<lparr>cpu_ticks = 60, disk_bytes = 1100, xfer_bytes = 5100, timestamp = Fin 1\<rparr>)])"

section \<open>Properties of the arithmetic\<close>

lemma pow2_pos: "0 < pow2 e"
  by (simp add: pow2_def)

lemma pow2_diff: "pow2 (int a - int b) = 2 ^ a / 2 ^ b"
proof (cases "b \<le> a")
  case True
  then have "pow2 (int a - int b) = 2 ^ (a - b)"
    by (simp add: pow2_def nat_diff_distrib')
  then show ?thesis using True by (simp add: power_diff)
next
  case False
  then have "pow2 (int a - int b) = 1 / 2 ^ (b - a)"
    by (simp add: pow2_def nat_diff_distrib')
  moreover have "(2::rat) ^ b = 2 ^ (b - a) * 2 ^ a"
    using False by (simp flip: power_add)
  ultimately show ?thesis by simp
qed

lemma pow2_nat: "pow2 (int n) = 2 ^ n"
  by (simp add: pow2_def)

lemma pow2_Suc: "pow2 (e + 1) = 2 * pow2 e"
proof -
  consider "0 \<le> e" | "e = - 1" | "e < - 1" by linarith
  then show ?thesis
  proof cases
    case 1
    then show ?thesis by (simp add: pow2_def nat_add_distrib)
  next
    case 2
    then show ?thesis by (simp add: pow2_def)
  next
    case 3
    then have "nat (- e) = Suc (nat (- (e + 1)))" by simp
    with 3 show ?thesis by (simp add: pow2_def)
  qed
qed

lemma pow2_pred: "pow2 (e - 1) = pow2 e / 2"
  using pow2_Suc [of "e - 1"] by simp

lemma ilog2_bounds:
  assumes "x \<noteq> 0"
  shows "pow2 (ilog2 x) \<le> \<bar>x\<bar> \<and> \<bar>x\<bar> < pow2 (ilog2 x + 1)"
proof -
  obtain p q where pq: "quotient_of \<bar>x\<bar> = (p, q)" by (cases "quotient_of \<bar>x\<bar>")
  have q: "0 < q" using pq by (rule quotient_of_denom_pos)
  have x: "\<bar>x\<bar> = of_int p / of_int q" using pq by (rule quotient_of_div)
  have "0 < \<bar>x\<bar>" using assms by simp
  with x q have p: "0 < p" by (simp add: zero_less_divide_iff)
  let ?bp = "bitlen p" and ?bq = "bitlen q"
  from bitlen_bounds [OF p] have bp: "2 ^ nat (?bp - 1) \<le> p" "p < 2 ^ nat ?bp" by simp_all
  from bitlen_bounds [OF q] have bq: "2 ^ nat (?bq - 1) \<le> q" "q < 2 ^ nat ?bq" by simp_all
  have bp1: "1 \<le> ?bp" using p by (simp add: bitlen_alt_def)
  have bq1: "1 \<le> ?bq" using q by (simp add: bitlen_alt_def)
  have rp: "(2::rat) ^ nat (?bp - 1) \<le> of_int p" "(of_int p :: rat) < 2 ^ nat ?bp"
    using bp by (metis of_int_le_iff of_int_numeral of_int_power, metis of_int_less_iff of_int_numeral of_int_power)
  have rq: "(2::rat) ^ nat (?bq - 1) \<le> of_int q" "(of_int q :: rat) < 2 ^ nat ?bq"
    using bq by (metis of_int_le_iff of_int_numeral of_int_power, metis of_int_less_iff of_int_numeral of_int_power)
  have qpos: "(0::rat) < of_int q" using q by simp
  have up: "\<bar>x\<bar> < pow2 (?bp - ?bq + 1)"
  proof -
    have "\<bar>x\<bar> < 2 ^ nat ?bp / of_int q"
      unfolding x by (rule divide_strict_right_mono [OF rp(2) qpos])
    also have "\<dots> \<le> 2 ^ nat ?bp / 2 ^ nat (?bq - 1)"
      by (rule divide_left_mono [OF rq(1)]) (use qpos in simp_all)
    also have "\<dots> = pow2 (int (nat ?bp) - int (nat (?bq - 1)))"
      by (simp only: pow2_diff)
    also have "int (nat ?bp) - int (nat (?bq - 1)) = ?bp - ?bq + 1"
      using bp1 bq1 by simp
    finally show ?thesis .
  qed
  have low: "pow2 (?bp - ?bq - 1) < \<bar>x\<bar>"
  proof -
    have "?bp - ?bq - 1 = int (nat (?bp - 1)) - int (nat ?bq)"
      using bp1 bq1 by simp
    then have "pow2 (?bp - ?bq - 1) = pow2 (int (nat (?bp - 1)) - int (nat ?bq))"
      by (rule arg_cong)
    also have "\<dots> = 2 ^ nat (?bp - 1) / 2 ^ nat ?bq"
      by (simp only: pow2_diff)
    also have "\<dots> < 2 ^ nat (?bp - 1) / of_int q"
      by (rule divide_strict_left_mono [OF rq(2)]) (use qpos in simp_all)
    also have "\<dots> \<le> \<bar>x\<bar>"
      unfolding x by (rule divide_right_mono [OF rp(1)]) (use qpos in simp)
    finally show ?thesis .
  qed
  show ?thesis
  proof (cases "pow2 (?bp - ?bq) \<le> \<bar>x\<bar>")
    case True
    then have "ilog2 x = ?bp - ?bq" by (simp add: ilog2_def pq)
    with True up show ?thesis by simp
  next
    case False
    then have k: "ilog2 x = ?bp - ?bq - 1" by (simp add: ilog2_def pq)
    from False have "\<bar>x\<bar> < pow2 (?bp - ?bq - 1 + 1)" by simp
    with low k show ?thesis by simp
  qed
qed

lemma round_half_even_of_int: "round_half_even (of_int i) = i"
  by (simp add: round_half_even_def)

lemma pow2_le_one: "e \<le> 0 \<Longrightarrow> pow2 e \<le> 1"
  by (cases "e = 0") (simp_all add: pow2_def)

lemma pow2_mono: "a \<le> b \<Longrightarrow> pow2 a \<le> pow2 b"
proof -
  assume "a \<le> b"
  then obtain n where b: "b = a + int n" by (metis nat_le_iff_add zle_iff_zadd)
  have "pow2 (a + int n) = 2 ^ n * pow2 a"
  proof (induction n)
    case 0
    then show ?case by simp
  next
    case (Suc n)
    have "a + int (Suc n) = a + int n + 1" by simp
    then have "pow2 (a + int (Suc n)) = pow2 (a + int n + 1)" by (rule arg_cong)
    also have "\<dots> = 2 * pow2 (a + int n)" by (rule pow2_Suc)
    finally show ?case using Suc by simp
  qed
  moreover have "(1::rat) \<le> 2 ^ n" by simp
  ultimately show ?thesis
    using pow2_pos [of a] b by (simp add: mult_le_cancel_right1)
qed

lemma round64_of_int:
  assumes "\<bar>n\<bar> \<le> 2 ^ 53"
  shows "round64 (of_int n) = Fin (of_int n)"
proof (cases "n = 0")
  case True
  then show ?thesis by (simp add: round64_def)
next
  case False
  let ?x = "of_int n :: rat"
  let ?k = "ilog2 ?x"
  have x0: "?x \<noteq> 0" using False by simp
  from ilog2_bounds [OF x0] have lo: "pow2 ?k \<le> \<bar>?x\<bar>" and hi: "\<bar>?x\<bar> < pow2 (?k + 1)"
    by simp_all
  have x1: "1 \<le> \<bar>?x\<bar>"
    using False by (metis of_int_1_le_iff of_int_abs zero_less_abs_iff zless_imp_add1_zle add_0)
  have xb: "\<bar>?x\<bar> \<le> 2 ^ 53"
    using assms by (metis of_int_abs of_int_le_iff of_int_numeral of_int_power)
  have k0: "0 \<le> ?k"
  proof (rule ccontr)
    assume "\<not> 0 \<le> ?k"
    then have "pow2 (?k + 1) \<le> 1" by (intro pow2_le_one) simp
    with hi x1 show False by simp
  qed
  have k53: "?k \<le> 53"
  proof (rule ccontr)
    assume "\<not> ?k \<le> 53"
    then have "pow2 54 \<le> pow2 ?k" by (intro pow2_mono) simp
    moreover have "pow2 54 = 2 ^ 54" by (simp add: pow2_def)
    ultimately show False using lo xb by simp
  qed
  show ?thesis
  proof (cases "?k = 53")
    case True
    have "pow2 53 = 2 ^ 53" by (simp add: pow2_def)
    with lo True xb have "\<bar>?x\<bar> = 2 ^ 53" by simp
    then have "\<bar>n\<bar> = 2 ^ 53"
      by (metis of_int_abs of_int_eq_iff of_int_numeral of_int_power)
    then consider "n = 2 ^ 53" | "n = - (2 ^ 53)" by linarith
    then show ?thesis
    proof cases
      case 1
      have "(2 ^ 53 :: rat) / 2 = of_int (2 ^ 52)" by simp
      then have "round_half_even (2 ^ 53 / 2) = 2 ^ 52"
        by (simp only: round_half_even_of_int)
      with True 1 show ?thesis
        by (simp add: round64_def Let_def pow2_def)
    next
      case 2
      have "- (2 ^ 53 :: rat) / 2 = of_int (- (2 ^ 52))" by simp
      then have "round_half_even (- (2 ^ 53) / 2) = - (2 ^ 52)"
        by (simp only: round_half_even_of_int)
      with True 2 show ?thesis
        by (simp add: round64_def Let_def pow2_def)
    qed
  next
    case False
    with k53 have k52: "?k \<le> 52" by simp
    define j where "j = nat (52 - ?k)"
    have e: "max (?k - 52) (- 1074) = - int j"
      using k0 k52 by (simp add: j_def)
    have p: "pow2 (- int j) = 1 / 2 ^ j"
      by (cases "j = 0") (simp_all add: pow2_def)
    have q: "?x / pow2 (- int j) = of_int (n * 2 ^ j)"
      by (simp add: p)
    have m: "round_half_even (?x / pow2 (- int j)) = n * 2 ^ j"
      by (simp only: q round_half_even_of_int)
    have "of_int (n * 2 ^ j) * pow2 (- int j) = ?x"
      by (simp add: p)
    with x0 show ?thesis
      by (simp add: round64_def Let_def e m del: of_int_mult)
  qed
qed

lemma round_half_even_error: "\<bar>of_int (round_half_even y) - y\<bar> \<le> 1 / 2"
proof -
  have "of_int \<lfloor>y\<rfloor> \<le> y" "y < of_int \<lfloor>y\<rfloor> + 1" by linarith+
  then show ?thesis
    by (auto simp: round_half_even_def Let_def abs_le_iff)
qed

lemma round64_error:
  assumes "round64 x = Fin r"
  shows "\<bar>r - x\<bar> \<le> pow2 (max (ilog2 x - 52) (- 1074)) / 2"
proof (cases "x = 0")
  case True
  with assms pow2_pos [of "max (ilog2 x - 52) (- 1074)"] show ?thesis
    by (simp add: round64_def)
next
  case False
  let ?e = "max (ilog2 x - 52) (- 1074)"
  from assms False have r: "r = of_int (round_half_even (x / pow2 ?e)) * pow2 ?e"
    by (auto simp: round64_def Let_def inf_of_def split: if_splits)
  have "r - x = (of_int (round_half_even (x / pow2 ?e)) - x / pow2 ?e) * pow2 ?e"
    using pow2_pos [of ?e] by (simp add: r left_diff_distrib)
  then have "\<bar>r - x\<bar> = \<bar>of_int (round_half_even (x / pow2 ?e)) - x / pow2 ?e\<bar> * pow2 ?e"
    using pow2_pos [of ?e] by (simp add: abs_mult)
  also have "\<dots> \<le> (1 / 2) * pow2 ?e"
    using round_half_even_error [of "x / pow2 ?e"] pow2_pos [of ?e]
    by (intro mult_right_mono) simp_all
  finally show ?thesis by simp
qed

lemma round64_finite:
  assumes "\<bar>x\<bar> < 2 ^ 1023"
  shows "\<exists>r. round64 x = Fin r"
proof (cases "x = 0")
  case True
  then show ?thesis by (simp add: round64_def)
next
  case False
  from ilog2_bounds [OF False] have lo: "pow2 (ilog2 x) \<le> \<bar>x\<bar>" by simp
  have "ilog2 x < 1023"
  proof (rule ccontr)
    assume "\<not> ilog2 x < 1023"
    then have "pow2 1023 \<le> pow2 (ilog2 x)" by (intro pow2_mono) simp
    moreover have "pow2 1023 = 2 ^ 1023" by (simp add: pow2_def)
    ultimately show False using lo assms by simp
  qed
  then have "\<not> 971 < max (ilog2 x - 52) (- 1074)" "max (ilog2 x - 52) (- 1074) \<noteq> 971"
    by simp_all
  with False show ?thesis by (simp add: round64_def Let_def)
qed

lemma float_of_int_returns: "\<bar>n\<bar> < 2 ^ 1023 \<Longrightarrow> \<exists>v. float_of_int n = Inr (Fin v)"
proof -
  assume "\<bar>n\<bar> < 2 ^ 1023"
  then have "\<bar>of_int n :: rat\<bar> < 2 ^ 1023"
    by (metis of_int_abs of_int_less_iff of_int_numeral of_int_power)
  from round64_finite [OF this] show ?thesis by (auto simp: float_of_int_def)
qed

lemma int_truediv_returns:
  assumes "b \<noteq> 0" "\<bar>a\<bar> < 2 ^ 1023"
  shows "\<exists>v. int_truediv a b = Inr (Fin v)"
proof -
  have "1 \<le> \<bar>of_int b :: rat\<bar>"
    using assms(1) by (metis of_int_1_le_iff of_int_abs zero_less_abs_iff zless_imp_add1_zle add_0)
  then have "\<bar>of_int a :: rat\<bar> / \<bar>of_int b\<bar> \<le> \<bar>of_int a\<bar> / 1"
    by (intro divide_left_mono) simp_all
  then have "\<bar>of_int a / of_int b :: rat\<bar> \<le> \<bar>of_int a\<bar>"
    by simp
  also have "\<bar>of_int a :: rat\<bar> < 2 ^ 1023"
    using assms(2) by (metis of_int_abs of_int_less_iff of_int_numeral of_int_power)
  finally obtain r where "round64 (of_int a / of_int b) = Fin r"
    using round64_finite by blast
  with assms(1) show ?thesis by (simp add: int_truediv_def)
qed

lemma fdiv_returns: "fgt dt (Fin 0) \<Longrightarrow> \<exists>r. fdiv (Fin v) dt = Inr r"
  by (cases dt) (auto simp: fgt_def)

lemma int_div_float_returns:
  "\<bar>n\<bar> < 2 ^ 1023 \<Longrightarrow> fgt dt (Fin 0) \<Longrightarrow> \<exists>r. int_div_float n dt = Inr r"
  using float_of_int_returns [of n] fdiv_returns [of dt]
  by (auto simp: int_div_float_def)

lemma round_half_even_nonneg: "0 \<le> x \<Longrightarrow> 0 \<le> round_half_even x"
  by (auto simp: round_half_even_def Let_def)


lemma round64_nonneg: "0 \<le> x \<Longrightarrow> fle (Fin 0) (round64 x)"
proof -
  assume x: "0 \<le> x"
  have "0 \<le> of_int (round_half_even (x / pow2 e)) * pow2 e" for e
    using x pow2_pos [of e] round_half_even_nonneg [of "x / pow2 e"] by simp
  then show ?thesis
    using x by (auto simp: round64_def Let_def inf_of_def simp del: of_int_mult)
qed


lemma max0_nonneg: "fle (Fin 0) r \<Longrightarrow> max0 r = r"
  by (cases r) (auto simp: max0_def fgt_def)



lemma float_of_int_Fin: "float_of_int n = Inr y \<Longrightarrow> \<exists>v. y = Fin v \<and> round64 (of_int n) = Fin v"
  by (cases "round64 (of_int n)") (auto simp: float_of_int_def)

lemma float_of_int_nonneg: "0 \<le> n \<Longrightarrow> float_of_int n = Inr y \<Longrightarrow> \<exists>v. y = Fin v \<and> 0 \<le> v"
  using round64_nonneg [of "of_int n"] by (auto dest!: float_of_int_Fin)




lemma fdiv_nonneg:
  "0 \<le> v \<Longrightarrow> fgt dt (Fin 0) \<Longrightarrow> fdiv (Fin v) dt = Inr r \<Longrightarrow> fle (Fin 0) r"
  using round64_nonneg [of "v / w" for w]
  by (cases dt) (auto simp: fgt_def split: if_splits)




lemma fle_not_fgt: "fle a b \<Longrightarrow> \<not> fgt a b"
  by (cases a; cases b) (auto simp: fgt_def)

lemma and_then_Inr: "and_then r f = Inr y \<longleftrightarrow> (\<exists>x. r = Inr x \<and> f x = Inr y)"
  by (cases r) (simp_all add: and_then_def)

lemma and_then_simps: "and_then (Inr x) f = f x" "and_then (Inl e) f = Inl e"
  by (simp_all add: and_then_def)

text \<open>Numbers of the examples that are binary64 numbers: rounding returns them.\<close>

lemma round64_0: "round64 0 = Fin 0"
  by (simp add: round64_def)

lemma round64_1: "round64 1 = Fin 1"
  using round64_of_int [of "1"] by simp

lemma round64_50: "round64 50 = Fin 50"
  using round64_of_int [of "50"] by simp

lemma round64_100: "round64 100 = Fin 100"
  using round64_of_int [of "100"] by simp

lemma round64_150: "round64 150 = Fin 150"
  using round64_of_int [of "150"] by simp

lemma round64_400: "round64 400 = Fin 400"
  using round64_of_int [of "400"] by simp

lemma round64_600: "round64 600 = Fin 600"
  using round64_of_int [of "600"] by simp

lemma round64_40960: "round64 40960 = Fin 40960"
  using round64_of_int [of "40960"] by simp

lemma round64_81920: "round64 81920 = Fin 81920"
  using round64_of_int [of "81920"] by simp

lemma round64_122880: "round64 122880 = Fin 122880"
  using round64_of_int [of "122880"] by simp

lemma round64_163840: "round64 163840 = Fin 163840"
  using round64_of_int [of "163840"] by simp

lemma round64_half: "round64 (1 / 2) = Fin (1 / 2)"
  by code_simp

lemma round64_minus_half: "round64 (- (1 / 2)) = Fin (- (1 / 2))"
  by code_simp

lemma round64_minus_50: "round64 (- 50) = Fin (- 50)"
  using round64_of_int [of "- 50"] by simp

lemma round64_minus_400: "round64 (- 400) = Fin (- 400)"
  using round64_of_int [of "- 400"] by simp

lemma round64_minus_600: "round64 (- 600) = Fin (- 600)"
  using round64_of_int [of "- 600"] by simp

lemma round64_1400: "round64 1400 = Fin 1400"
  using round64_of_int [of "1400"] by simp

lemma round64_5600: "round64 5600 = Fin 5600"
  using round64_of_int [of "5600"] by simp

lemma round64_1048576: "round64 1048576 = Fin 1048576"
  using round64_of_int [of "1048576"] by simp

lemma round64_5_128: "round64 (5 / 128) = Fin (5 / 128)"
  by code_simp

lemmas round64_values = round64_0 round64_1 round64_50 round64_100 round64_150 round64_400
  round64_600 round64_40960 round64_81920 round64_122880 round64_163840 round64_half
  round64_minus_half round64_minus_50 round64_minus_400 round64_minus_600
  round64_1400 round64_5600 round64_1048576 round64_5_128

section \<open>Properties of the accumulator\<close>

lemma add_all_count: "count_n (add_all acc vs) = count_n acc + int (length (present vs))"
  by (induction vs arbitrary: acc rule: present.induct) simp_all

lemma add_all_total: "total_sum (add_all acc vs) = foldl fadd (total_sum acc) (present vs)"
  by (induction vs arbitrary: acc rule: present.induct) simp_all

lemma add_all_minimum: "minimum (add_all acc vs) = foldl min_step (minimum acc) (present vs)"
  by (induction vs arbitrary: acc rule: present.induct) (simp_all add: min_step_def)

lemma add_all_maximum: "maximum (add_all acc vs) = foldl max_step (maximum acc) (present vs)"
  by (induction vs arbitrary: acc rule: present.induct) (simp_all add: max_step_def)

lemma add_all_present: "add_all acc vs = add_all acc (map Some (present vs))"
  by (induction vs arbitrary: acc rule: present.induct) simp_all

lemma fle_trans: "fle a b \<Longrightarrow> fle b c \<Longrightarrow> fle a c"
  by (cases a; cases b; cases c) auto

lemma fle_refl: "a \<noteq> NaN \<Longrightarrow> fle a a"
  by (cases a) auto

lemma min_step_le: "m \<noteq> NaN \<Longrightarrow> fle (min_step m v) m"
  by (cases m; cases v) (auto simp: min_step_def)

lemma min_step_le2: "m \<noteq> NaN \<Longrightarrow> v \<noteq> NaN \<Longrightarrow> fle (min_step m v) v"
  by (cases m; cases v) (auto simp: min_step_def)

lemma min_step_NaN: "m \<noteq> NaN \<Longrightarrow> min_step m v \<noteq> NaN"
  by (cases m; cases v) (auto simp: min_step_def)

lemma foldl_min_NaN: "m \<noteq> NaN \<Longrightarrow> foldl min_step m xs \<noteq> NaN"
  by (induction xs arbitrary: m) (simp_all add: min_step_NaN)

lemma foldl_min_le_init: "m \<noteq> NaN \<Longrightarrow> fle (foldl min_step m xs) m"
proof (induction xs arbitrary: m)
  case Nil
  then show ?case by (simp add: fle_refl)
next
  case (Cons x xs)
  have "fle (foldl min_step (min_step m x) xs) (min_step m x)"
    using Cons.prems by (intro Cons.IH min_step_NaN)
  then show ?case
    using min_step_le [OF Cons.prems] by (auto intro: fle_trans)
qed

lemma foldl_min_le: "m \<noteq> NaN \<Longrightarrow> v \<in> set xs \<Longrightarrow> v \<noteq> NaN \<Longrightarrow> fle (foldl min_step m xs) v"
proof (induction xs arbitrary: m)
  case Nil
  then show ?case by simp
next
  case (Cons x xs)
  show ?case
  proof (cases "v = x")
    case True
    have "fle (foldl min_step (min_step m x) xs) (min_step m x)"
      using Cons.prems by (intro foldl_min_le_init min_step_NaN)
    moreover have "fle (min_step m x) v"
      using True Cons.prems by (simp add: min_step_le2)
    ultimately show ?thesis by (auto intro: fle_trans)
  next
    case False
    then have "v \<in> set xs" using Cons.prems by simp
    then show ?thesis using Cons.prems by (simp add: Cons.IH min_step_NaN)
  qed
qed

lemma max_step_ge: "m \<noteq> NaN \<Longrightarrow> fle m (max_step m v)"
  by (cases m; cases v) (auto simp: max_step_def fgt_def)

lemma max_step_ge2: "m \<noteq> NaN \<Longrightarrow> v \<noteq> NaN \<Longrightarrow> fle v (max_step m v)"
  by (cases m; cases v) (auto simp: max_step_def fgt_def)

lemma max_step_NaN: "m \<noteq> NaN \<Longrightarrow> max_step m v \<noteq> NaN"
  by (cases m; cases v) (auto simp: max_step_def fgt_def)

lemma foldl_max_ge_init: "m \<noteq> NaN \<Longrightarrow> fle m (foldl max_step m xs)"
proof (induction xs arbitrary: m)
  case Nil
  then show ?case by (simp add: fle_refl)
next
  case (Cons x xs)
  have "fle (max_step m x) (foldl max_step (max_step m x) xs)"
    using Cons.prems by (intro Cons.IH max_step_NaN)
  then show ?case
    using max_step_ge [OF Cons.prems] by (auto intro: fle_trans)
qed

lemma foldl_max_ge: "m \<noteq> NaN \<Longrightarrow> v \<in> set xs \<Longrightarrow> v \<noteq> NaN \<Longrightarrow> fle v (foldl max_step m xs)"
proof (induction xs arbitrary: m)
  case Nil
  then show ?case by simp
next
  case (Cons x xs)
  show ?case
  proof (cases "v = x")
    case True
    have "fle (max_step m x) (foldl max_step (max_step m x) xs)"
      using Cons.prems by (intro foldl_max_ge_init max_step_NaN)
    moreover have "fle v (max_step m x)"
      using True Cons.prems by (simp add: max_step_ge2)
    ultimately show ?thesis by (auto intro: fle_trans)
  next
    case False
    then have "v \<in> set xs" using Cons.prems by simp
    then show ?thesis using Cons.prems by (simp add: Cons.IH max_step_NaN)
  qed
qed

lemma exact_sums_foldl:
  "exact_sums s xs \<Longrightarrow> foldl fadd (Fin s) xs = Fin (s + sum_list (map rat_of xs))"
  by (induction s xs rule: exact_sums.induct) (simp_all add: add.assoc)

lemma lit_01: "round64 (1 / 10) = Fin (3602879701896397 / 36028797018963968)"
  by code_simp

lemma sum_up_1:
  "fadd (Fin 0) (Fin (3602879701896397 / 36028797018963968)) =
   Fin (3602879701896397 / 36028797018963968)"
  by code_simp

lemma sum_same_2:
  "fadd (Fin (3602879701896397 / 36028797018963968))
     (Fin (3602879701896397 / 36028797018963968)) =
   Fin (3602879701896397 / 18014398509481984)"
  by code_simp

lemma sum_same_3:
  "fadd (Fin (3602879701896397 / 18014398509481984))
     (Fin (3602879701896397 / 36028797018963968)) =
   Fin (1351079888211149 / 4503599627370496)"
  by code_simp

lemma mean_same:
  "float_div_int (Fin (1351079888211149 / 4503599627370496)) 3 =
   Inr (Fin (7205759403792795 / 72057594037927936))"
  by code_simp

lemma round64_2: "round64 2 = Fin 2"
  using round64_of_int [of 2] by simp

lemma round64_3: "round64 3 = Fin 3"
  using round64_of_int [of 3] by simp

lemma round64_4: "round64 4 = Fin 4"
  using round64_of_int [of 4] by simp

lemma as_tuple_exact:
  assumes "xs \<noteq> []" and "exact_sums 0 xs" and "int (length xs) \<le> 2 ^ 53"
    and "total_sum acc = foldl fadd (Fin 0) xs" and "count_n acc = int (length xs)"
  shows "as_tuple acc =
         Inr (minimum acc, maximum acc, round64 (exact_mean (map rat_of xs)))"
proof -
  have t: "total_sum acc = Fin (sum_list (map rat_of xs))"
    using exact_sums_foldl [OF assms(2)] assms(4) by simp
  have "\<bar>int (length xs)\<bar> \<le> 2 ^ 53" using assms(3) by simp
  from round64_of_int [OF this]
  have n: "float_of_int (int (length xs)) = Inr (Fin (of_nat (length xs)))"
    by (simp add: float_of_int_def)
  have nz: "(of_nat (length xs) :: rat) \<noteq> 0" using assms(1) by simp
  have "float_div_int (total_sum acc) (count_n acc) =
        Inr (round64 (sum_list (map rat_of xs) / of_nat (length xs)))"
    using nz by (simp add: float_div_int_def t assms(5) n)
  then show ?thesis
    using assms(1,5) by (simp add: as_tuple_def exact_mean_def)
qed

subsection \<open>C6: the invariant of an accumulator\<close>

text \<open>
  Claim C6, amended. An accumulator reached from a fresh one by any sequence of \<^verbatim>\<open>add\<close>
  calls has \<open>count\<close> equal to the number of values that were present. If \<open>count\<close> is zero
  then \<open>minimum\<close> is plus infinity and \<open>maximum\<close> is minus infinity. If \<open>count\<close> is
  positive then \<open>minimum \<le> v \<le> maximum\<close> for every added value \<open>v\<close> that is a number
  (not a not-a-number). The total is the floating-point sum of the added values in the
  order of their addition; when no addition of that sum is rounded (and \<open>count\<close> is at
  most \<open>2 ^ 53\<close>), \<open>total / count\<close> is the arithmetic mean of the added values rounded
  to the nearest float. Adding an absent value changes no field.
\<close>

theorem accumulator_invariant:
  "(count_n (add_all new_accumulator vs) = int (length (present vs))) \<and>
   (count_n (add_all new_accumulator vs) = 0 \<longrightarrow>
      minimum (add_all new_accumulator vs) = PInf \<and>
      maximum (add_all new_accumulator vs) = NInf) \<and>
   (0 < count_n (add_all new_accumulator vs) \<longrightarrow>
      (\<forall>v \<in> set (present vs). v \<noteq> NaN \<longrightarrow>
         fle (minimum (add_all new_accumulator vs)) v \<and>
         fle v (maximum (add_all new_accumulator vs)))) \<and>
   total_sum (add_all new_accumulator vs) = foldl fadd (Fin 0) (present vs) \<and>
   (0 < count_n (add_all new_accumulator vs) \<and> exact_sums 0 (present vs) \<and>
    count_n (add_all new_accumulator vs) \<le> 2 ^ 53 \<longrightarrow>
      as_tuple (add_all new_accumulator vs) =
        Inr (minimum (add_all new_accumulator vs), maximum (add_all new_accumulator vs),
             round64 (exact_mean (map rat_of (present vs))))) \<and>
   add (add_all new_accumulator vs) None = add_all new_accumulator vs"
proof -
  let ?acc = "add_all new_accumulator vs"
  have c: "count_n ?acc = int (length (present vs))"
    by (simp add: add_all_count new_accumulator_def)
  have z: "minimum ?acc = PInf \<and> maximum ?acc = NInf" if "count_n ?acc = 0"
  proof -
    from that c have "present vs = []" by simp
    then show ?thesis
      by (simp add: add_all_minimum add_all_maximum new_accumulator_def)
  qed
  have b: "fle (minimum ?acc) v \<and> fle v (maximum ?acc)"
    if "v \<in> set (present vs)" "v \<noteq> NaN" for v
    using that
    by (simp add: add_all_minimum add_all_maximum new_accumulator_def
        foldl_min_le foldl_max_ge)
  have t: "total_sum ?acc = foldl fadd (Fin 0) (present vs)"
    by (simp add: add_all_total new_accumulator_def)
  have m: "as_tuple ?acc =
      Inr (minimum ?acc, maximum ?acc, round64 (exact_mean (map rat_of (present vs))))"
    if "0 < count_n ?acc" "exact_sums 0 (present vs)" "count_n ?acc \<le> 2 ^ 53"
  proof -
    from that(1) c have "present vs \<noteq> []" by auto
    moreover from that(3) c have "int (length (present vs)) \<le> 2 ^ 53" by simp
    ultimately show ?thesis
      using that(2) t c by (intro as_tuple_exact)
  qed
  have a: "add ?acc None = ?acc" by simp
  show ?thesis using c z b t m a by blast
qed

text \<open>
  The invariant at the fresh accumulator and after \<^verbatim>\<open>add(3.0); add(None); add(1.0)\<close>,
  where the sum 4.0 is exact and the mean is 2.0.
\<close>

theorem accumulator_invariant_witness:
  "count_n (add_all new_accumulator []) = 0 \<and>
   minimum (add_all new_accumulator []) = PInf \<and>
   maximum (add_all new_accumulator []) = NInf \<and>
   0 < count_n (add_all new_accumulator [Some (Fin 3), None, Some (Fin 1)]) \<and>
   Fin 3 \<in> set (present [Some (Fin 3), None, Some (Fin 1)]) \<and> Fin 3 \<noteq> NaN \<and>
   fle (minimum (add_all new_accumulator [Some (Fin 3), None, Some (Fin 1)])) (Fin 3) \<and>
   fle (Fin 3) (maximum (add_all new_accumulator [Some (Fin 3), None, Some (Fin 1)])) \<and>
   exact_sums 0 (present [Some (Fin 3), None, Some (Fin 1)]) \<and>
   count_n (add_all new_accumulator [Some (Fin 3), None, Some (Fin 1)]) \<le> 2 ^ 53 \<and>
   exact_mean (map rat_of (present [Some (Fin 3), None, Some (Fin 1)])) = 2 \<and>
   as_tuple (add_all new_accumulator [Some (Fin 3), None, Some (Fin 1)]) =
     Inr (Fin 1, Fin 3, Fin 2)"
proof -
  have e: "exact_sums 0 (present [Some (Fin 3), None, Some (Fin 1)])"
    by (simp add: round64_3 round64_4)
  have m: "exact_mean (map rat_of (present [Some (Fin 3), None, Some (Fin 1)])) = 2"
    by (simp add: exact_mean_def)
  show ?thesis
    using accumulator_invariant [of "[]"]
      accumulator_invariant [of "[Some (Fin 3), None, Some (Fin 1)]"] e m
    by (simp add: new_accumulator_def round64_2 fgt_def)
qed

text \<open>
  Claim C6 as stated fails in two places. A float addition rounds: after adding the
  float \<^verbatim>\<open>0.1\<close> three times the total is \<^verbatim>\<open>0.30000000000000004\<close> and \<open>total / count\<close> is
  \<^verbatim>\<open>0.10000000000000002\<close>, while the arithmetic mean of the three values is \<^verbatim>\<open>0.1\<close>
  itself; the reported mean is even above the maximum. And a not-a-number compares false
  with everything: after \<^verbatim>\<open>add(nan)\<close> the count is 1 and \<open>minimum \<le> nan\<close> does not hold.
\<close>

theorem mean_is_rounded:
  "round64 (1 / 10) = Fin (3602879701896397 / 36028797018963968) \<and>
   as_tuple (add_all new_accumulator
     [Some (Fin (3602879701896397 / 36028797018963968)),
      Some (Fin (3602879701896397 / 36028797018963968)),
      Some (Fin (3602879701896397 / 36028797018963968))]) =
     Inr (Fin (3602879701896397 / 36028797018963968),
          Fin (3602879701896397 / 36028797018963968),
          Fin (7205759403792795 / 72057594037927936)) \<and>
   exact_mean [3602879701896397 / 36028797018963968,
               3602879701896397 / 36028797018963968,
               3602879701896397 / 36028797018963968] =
     3602879701896397 / 36028797018963968 \<and>
   Fin (7205759403792795 / 72057594037927936) \<noteq>
     Fin (3602879701896397 / 36028797018963968) \<and>
   \<not> fle (Fin (7205759403792795 / 72057594037927936))
         (Fin (3602879701896397 / 36028797018963968)) \<and>
   count_n (add_all new_accumulator [Some NaN]) = 1 \<and>
   \<not> fle (minimum (add_all new_accumulator [Some NaN])) NaN"
proof -
  have t: "as_tuple (add_all new_accumulator
     [Some (Fin (3602879701896397 / 36028797018963968)),
      Some (Fin (3602879701896397 / 36028797018963968)),
      Some (Fin (3602879701896397 / 36028797018963968))]) =
     Inr (Fin (3602879701896397 / 36028797018963968),
          Fin (3602879701896397 / 36028797018963968),
          Fin (7205759403792795 / 72057594037927936))"
    by (simp add: as_tuple_def new_accumulator_def fgt_def
        sum_up_1 sum_same_2 sum_same_3 mean_same del: fadd.simps)
  have m: "exact_mean [3602879701896397 / 36028797018963968,
               3602879701896397 / 36028797018963968,
               3602879701896397 / 36028797018963968] =
     3602879701896397 / 36028797018963968"
    by (simp add: exact_mean_def)
  have ne: "Fin (7205759403792795 / 72057594037927936) \<noteq>
     Fin (3602879701896397 / 36028797018963968)"
    "\<not> fle (Fin (7205759403792795 / 72057594037927936))
         (Fin (3602879701896397 / 36028797018963968))"
    by simp_all
  have n: "count_n (add_all new_accumulator [Some NaN]) = 1"
    "\<not> fle (minimum (add_all new_accumulator [Some NaN])) NaN"
    by (simp_all add: new_accumulator_def)
  show ?thesis
    using lit_01 t m ne n by blast
qed

lemma present_filter: "present vs = map the (filter (\<lambda>v. v \<noteq> None) vs)"
  by (induction vs rule: present.induct) simp_all

lemma mset_present: "mset vs = mset ws \<Longrightarrow> mset (present vs) = mset (present ws)"
proof -
  assume "mset vs = mset ws"
  then have "mset (filter (\<lambda>v. v \<noteq> None) vs) = mset (filter (\<lambda>v. v \<noteq> None) ws)"
    by (metis mset_filter)
  then have "image_mset the (mset (filter (\<lambda>v. v \<noteq> None) vs)) =
             image_mset the (mset (filter (\<lambda>v. v \<noteq> None) ws))"
    by simp
  then show ?thesis
    by (simp only: present_filter mset_map)
qed

lemma min_step_commute: "min_step (min_step m x) y = min_step (min_step m y) x"
  by (cases m; cases x; cases y) (auto simp: min_step_def)

lemma max_step_commute: "max_step (max_step m x) y = max_step (max_step m y) x"
  by (cases m; cases x; cases y) (auto simp: max_step_def fgt_def)

lemma foldl_min_perm: "mset xs = mset ys \<Longrightarrow> foldl min_step m xs = foldl min_step m ys"
proof -
  assume p: "mset xs = mset ys"
  have "fold (\<lambda>x m. min_step m x) xs = fold (\<lambda>x m. min_step m x) ys"
    by (rule fold_multiset_equiv [OF _ p]) (simp add: fun_eq_iff min_step_commute)
  then show ?thesis by (simp add: foldl_conv_fold)
qed

lemma foldl_max_perm: "mset xs = mset ys \<Longrightarrow> foldl max_step m xs = foldl max_step m ys"
proof -
  assume p: "mset xs = mset ys"
  have "fold (\<lambda>x m. max_step m x) xs = fold (\<lambda>x m. max_step m x) ys"
    by (rule fold_multiset_equiv [OF _ p]) (simp add: fun_eq_iff max_step_commute)
  then show ?thesis by (simp add: foldl_conv_fold)
qed

lemma sum_list_rat_of_perm:
  "mset xs = mset ys \<Longrightarrow> sum_list (map rat_of xs) = sum_list (map rat_of ys)"
proof -
  assume "mset xs = mset ys"
  then have "sum_mset (image_mset rat_of (mset xs)) = sum_mset (image_mset rat_of (mset ys))"
    by simp
  then show ?thesis
    by (simp only: mset_map [symmetric] sum_mset_sum_list)
qed

subsection \<open>C7: the order of the values\<close>

text \<open>
  Claim C7, amended. Feeding a stream of optional values or any permutation of it into a
  fresh accumulator yields the same minimum, the same maximum and the same count, and
  the absent values change nothing: the result is that of feeding the present values
  alone. The mean is the same in both orders when no addition of the running sum is
  rounded in either order.
\<close>

theorem add_order_independent:
  assumes "mset vs = mset ws"
  shows "minimum (add_all new_accumulator vs) = minimum (add_all new_accumulator ws) \<and>
         maximum (add_all new_accumulator vs) = maximum (add_all new_accumulator ws) \<and>
         count_n (add_all new_accumulator vs) = count_n (add_all new_accumulator ws) \<and>
         (exact_sums 0 (present vs) \<and> exact_sums 0 (present ws) \<longrightarrow>
            as_tuple (add_all new_accumulator vs) = as_tuple (add_all new_accumulator ws)) \<and>
         add_all new_accumulator vs = add_all new_accumulator (map Some (present vs)) \<and>
         add_all new_accumulator ws = add_all new_accumulator (map Some (present ws))"
proof -
  have p: "mset (present vs) = mset (present ws)"
    using assms by (rule mset_present)
  have mn: "minimum (add_all new_accumulator vs) = minimum (add_all new_accumulator ws)"
    by (simp add: add_all_minimum foldl_min_perm [OF p])
  have mx: "maximum (add_all new_accumulator vs) = maximum (add_all new_accumulator ws)"
    by (simp add: add_all_maximum foldl_max_perm [OF p])
  have "length (present vs) = length (present ws)"
    using p by (rule mset_eq_length)
  then have c: "count_n (add_all new_accumulator vs) = count_n (add_all new_accumulator ws)"
    by (simp add: add_all_count)
  have t: "total_sum (add_all new_accumulator vs) = total_sum (add_all new_accumulator ws)"
    if "exact_sums 0 (present vs)" "exact_sums 0 (present ws)"
    using that sum_list_rat_of_perm [OF p]
    by (simp add: add_all_total new_accumulator_def exact_sums_foldl)
  have a: "as_tuple (add_all new_accumulator vs) = as_tuple (add_all new_accumulator ws)"
    if "exact_sums 0 (present vs)" "exact_sums 0 (present ws)"
    unfolding as_tuple_def t [OF that] mn mx c ..
  show ?thesis
    using mn mx c a add_all_present by blast
qed

lemma round64_quarter: "round64 (1 / 4) = Fin (1 / 4)"
  by code_simp

lemma round64_three_quarters: "round64 (3 / 4) = Fin (3 / 4)"
  by code_simp

text \<open>The values \<^verbatim>\<open>0.5, None, 0.25\<close> and a permutation of them: the sums are exact.\<close>

theorem add_order_independent_witness:
  "mset [Some (Fin (1 / 2)), None, Some (Fin (1 / 4))] =
     mset [Some (Fin (1 / 4)), Some (Fin (1 / 2)), None] \<and>
   exact_sums 0 (present [Some (Fin (1 / 2)), None, Some (Fin (1 / 4))]) \<and>
   exact_sums 0 (present [Some (Fin (1 / 4)), Some (Fin (1 / 2)), None]) \<and>
   minimum (add_all new_accumulator [Some (Fin (1 / 2)), None, Some (Fin (1 / 4))]) =
     minimum (add_all new_accumulator [Some (Fin (1 / 4)), Some (Fin (1 / 2)), None]) \<and>
   as_tuple (add_all new_accumulator [Some (Fin (1 / 2)), None, Some (Fin (1 / 4))]) =
     as_tuple (add_all new_accumulator [Some (Fin (1 / 4)), Some (Fin (1 / 2)), None])"
proof -
  have m: "mset [Some (Fin (1 / 2)), None, Some (Fin (1 / 4))] =
           mset [Some (Fin (1 / 4)), Some (Fin (1 / 2)), None]"
    by simp
  have e1: "exact_sums 0 (present [Some (Fin (1 / 2)), None, Some (Fin (1 / 4))])"
    by (simp add: round64_half round64_three_quarters)
  have e2: "exact_sums 0 (present [Some (Fin (1 / 4)), Some (Fin (1 / 2)), None])"
    by (simp add: round64_quarter round64_three_quarters)
  show ?thesis
    using add_order_independent [OF m] m e1 e2 by blast
qed

lemma lit_02: "round64 (2 / 10) = Fin (3602879701896397 / 18014398509481984)"
  by code_simp

lemma lit_03: "round64 (3 / 10) = Fin (5404319552844595 / 18014398509481984)"
  by code_simp

lemma sum_up_2:
  "fadd (Fin (3602879701896397 / 36028797018963968))
     (Fin (3602879701896397 / 18014398509481984)) =
   Fin (1351079888211149 / 4503599627370496)"
  by code_simp

lemma sum_up_3:
  "fadd (Fin (1351079888211149 / 4503599627370496))
     (Fin (5404319552844595 / 18014398509481984)) =
   Fin (1351079888211149 / 2251799813685248)"
  by code_simp

lemma mean_up:
  "float_div_int (Fin (1351079888211149 / 2251799813685248)) 3 =
   Inr (Fin (7205759403792795 / 36028797018963968))"
  by code_simp

lemma sum_down_1:
  "fadd (Fin 0) (Fin (5404319552844595 / 18014398509481984)) =
   Fin (5404319552844595 / 18014398509481984)"
  by code_simp

lemma sum_down_2:
  "fadd (Fin (5404319552844595 / 18014398509481984))
     (Fin (3602879701896397 / 18014398509481984)) = Fin (1 / 2)"
  by code_simp

lemma sum_down_3:
  "fadd (Fin (1 / 2)) (Fin (3602879701896397 / 36028797018963968)) =
   Fin (5404319552844595 / 9007199254740992)"
  by code_simp

lemma mean_down:
  "float_div_int (Fin (5404319552844595 / 9007199254740992)) 3 =
   Inr (Fin (7205759403792793 / 36028797018963968))"
  by code_simp

text \<open>
  Claim C7 as stated fails for the mean: a float addition rounds, so the running sum
  depends on the order. The floats \<^verbatim>\<open>0.1\<close>, \<^verbatim>\<open>0.2\<close>, \<^verbatim>\<open>0.3\<close> are the roundings of
  \<open>1/10\<close>, \<open>2/10\<close>, \<open>3/10\<close>. Added in this order the total is \<^verbatim>\<open>0.6000000000000001\<close> and
  the mean \<^verbatim>\<open>0.20000000000000004\<close>; added in the reverse order the total is \<^verbatim>\<open>0.6\<close> and
  the mean \<^verbatim>\<open>0.19999999999999998\<close>.
\<close>

theorem add_order_changes_mean:
  "round64 (1 / 10) = Fin (3602879701896397 / 36028797018963968) \<and>
   round64 (2 / 10) = Fin (3602879701896397 / 18014398509481984) \<and>
   round64 (3 / 10) = Fin (5404319552844595 / 18014398509481984) \<and>
   mset [Some (Fin (3602879701896397 / 36028797018963968)),
         Some (Fin (3602879701896397 / 18014398509481984)),
         Some (Fin (5404319552844595 / 18014398509481984))] =
   mset [Some (Fin (5404319552844595 / 18014398509481984)),
         Some (Fin (3602879701896397 / 18014398509481984)),
         Some (Fin (3602879701896397 / 36028797018963968))] \<and>
   as_tuple (add_all new_accumulator
     [Some (Fin (3602879701896397 / 36028797018963968)),
      Some (Fin (3602879701896397 / 18014398509481984)),
      Some (Fin (5404319552844595 / 18014398509481984))]) =
     Inr (Fin (3602879701896397 / 36028797018963968),
          Fin (5404319552844595 / 18014398509481984),
          Fin (7205759403792795 / 36028797018963968)) \<and>
   as_tuple (add_all new_accumulator
     [Some (Fin (5404319552844595 / 18014398509481984)),
      Some (Fin (3602879701896397 / 18014398509481984)),
      Some (Fin (3602879701896397 / 36028797018963968))]) =
     Inr (Fin (3602879701896397 / 36028797018963968),
          Fin (5404319552844595 / 18014398509481984),
          Fin (7205759403792793 / 36028797018963968)) \<and>
   Fin (7205759403792795 / 36028797018963968) \<noteq> Fin (7205759403792793 / 36028797018963968)"
proof -
  have up: "as_tuple (add_all new_accumulator
     [Some (Fin (3602879701896397 / 36028797018963968)),
      Some (Fin (3602879701896397 / 18014398509481984)),
      Some (Fin (5404319552844595 / 18014398509481984))]) =
     Inr (Fin (3602879701896397 / 36028797018963968),
          Fin (5404319552844595 / 18014398509481984),
          Fin (7205759403792795 / 36028797018963968))"
    by (simp add: as_tuple_def new_accumulator_def fgt_def
        sum_up_1 sum_up_2 sum_up_3 mean_up del: fadd.simps)
  have down: "as_tuple (add_all new_accumulator
     [Some (Fin (5404319552844595 / 18014398509481984)),
      Some (Fin (3602879701896397 / 18014398509481984)),
      Some (Fin (3602879701896397 / 36028797018963968))]) =
     Inr (Fin (3602879701896397 / 36028797018963968),
          Fin (5404319552844595 / 18014398509481984),
          Fin (7205759403792793 / 36028797018963968))"
    by (simp add: as_tuple_def new_accumulator_def fgt_def
        sum_down_1 sum_down_2 sum_down_3 mean_down del: fadd.simps)
  have perm: "mset [Some (Fin (3602879701896397 / 36028797018963968)),
         Some (Fin (3602879701896397 / 18014398509481984)),
         Some (Fin (5404319552844595 / 18014398509481984))] =
   mset [Some (Fin (5404319552844595 / 18014398509481984)),
         Some (Fin (3602879701896397 / 18014398509481984)),
         Some (Fin (3602879701896397 / 36028797018963968))]"
    by (simp add: add_mset_commute)
  have ne: "Fin (7205759403792795 / 36028797018963968) \<noteq>
            Fin (7205759403792793 / 36028797018963968)"
    by simp
  show ?thesis
    using lit_01 lit_02 lit_03 perm up down ne by blast
qed

section \<open>Properties of a pass\<close>

lemma sample_loop_other:
  "p \<notin> set ps \<Longrightarrow> sample_loop os now clk pg ps (st, pv) = Inr (st', pv') \<Longrightarrow>
   map_of st' p = map_of st p \<and> map_of pv' p = map_of pv p"
proof (induction ps arbitrary: st pv)
  case Nil
  then show ?case by simp
next
  case (Cons q ps)
  show ?case
  proof (cases "read_stat os q")
    case None
    with Cons show ?thesis by simp
  next
    case (Some stat)
    with Cons.prems obtain r s where
      "sample_loop os now clk pg ps (AList.update q r st, AList.update q s pv) = Inr (st', pv')"
      by (auto simp: and_then_Inr)
    with Cons.IH [of "AList.update q r st" "AList.update q s pv"] Cons.prems(1)
    show ?thesis by (simp add: update_conv')
  qed
qed

lemma sample_loop_unread:
  "read_stat os p = None \<Longrightarrow> sample_loop os now clk pg ps (st, pv) = Inr (st', pv') \<Longrightarrow>
   map_of st' p = map_of st p \<and> map_of pv' p = map_of pv p"
proof (induction ps arbitrary: st pv)
  case Nil
  then show ?case by simp
next
  case (Cons q ps)
  show ?case
  proof (cases "read_stat os q")
    case None
    with Cons show ?thesis by simp
  next
    case (Some stat)
    with Cons.prems(1) have "q \<noteq> p" by auto
    from Some Cons.prems obtain r s where
      "sample_loop os now clk pg ps (AList.update q r st, AList.update q s pv) = Inr (st', pv')"
      by (auto simp: and_then_Inr)
    with Cons.IH [of "AList.update q r st" "AList.update q s pv"] Cons.prems(1) \<open>q \<noteq> p\<close>
    show ?thesis by (simp add: update_conv')
  qed
qed

lemma sample_loop_read:
  "distinct ps \<Longrightarrow> p \<in> set ps \<Longrightarrow> read_stat os p = Some stat \<Longrightarrow>
   sample_loop os now clk pg ps (st, pv) = Inr (st', pv') \<Longrightarrow>
   \<exists>r s. sample_read p now clk pg stat (read_io_counters os p) (map_of st p) (map_of pv p) =
            Inr (r, s) \<and>
         map_of st' p = Some r \<and> map_of pv' p = Some s"
proof (induction ps arbitrary: st pv)
  case Nil
  then show ?case by simp
next
  case (Cons q ps)
  show ?case
  proof (cases "q = p")
    case True
    with Cons.prems obtain r s where
      rs: "sample_read p now clk pg stat (read_io_counters os p) (map_of st p) (map_of pv p) =
            Inr (r, s)"
      and rest: "sample_loop os now clk pg ps (AList.update p r st, AList.update p s pv) =
            Inr (st', pv')"
      by (auto simp: and_then_Inr)
    from True Cons.prems(1) have "p \<notin> set ps" by simp
    from sample_loop_other [OF this rest] rs show ?thesis
      by (simp add: update_conv')
  next
    case False
    with Cons.prems have in_ps: "p \<in> set ps" and d: "distinct ps" by auto
    show ?thesis
    proof (cases "read_stat os q")
      case None
      with Cons.prems have "sample_loop os now clk pg ps (st, pv) = Inr (st', pv')" by simp
      from Cons.IH [OF d in_ps Cons.prems(3) this] show ?thesis .
    next
      case (Some stat')
      with Cons.prems obtain r s where
        rest: "sample_loop os now clk pg ps (AList.update q r st, AList.update q s pv) =
            Inr (st', pv')"
        by (auto simp: and_then_Inr)
      from Cons.IH [OF d in_ps Cons.prems(3) rest] False show ?thesis
        by (simp add: update_conv')
    qed
  qed
qed

lemma sample_once_count:
  "sample_once os service now clk pg reg = Inr (n, reg') \<Longrightarrow>
   n = int (length (pids_in_service_cgroup os service))"
  by (auto simp: sample_once_def Let_def and_then_Inr split: if_splits)

lemma sample_once_loop:
  "sample_once os service now clk pg reg = Inr (n, reg') \<Longrightarrow>
   sample_loop os now clk pg (pids_in_service_cgroup os service) reg = Inr reg'"
  by (auto simp: sample_once_def Let_def and_then_Inr split: if_splits)

lemma sample_once_unread:
  assumes "sample_once os service now clk pg (st, pv) = Inr (n, st', pv')"
    and "\<not> read_in service p (now, os)"
  shows "map_of st' p = map_of st p \<and> map_of pv' p = map_of pv p"
proof (cases "p \<in> set (pids_in_service_cgroup os service)")
  case True
  with assms(2) have "read_stat os p = None"
    by (cases "read_stat os p") (simp_all add: read_in_def)
  from sample_loop_unread [OF this sample_once_loop [OF assms(1)]] show ?thesis .
next
  case False
  from sample_loop_other [OF this sample_once_loop [OF assms(1)]] show ?thesis .
qed

lemma sample_once_read:
  assumes "sample_once os service now clk pg (st, pv) = Inr (n, st', pv')"
    and "distinct (pids_in_service_cgroup os service)"
    and "p \<in> set (pids_in_service_cgroup os service)"
    and "read_stat os p = Some stat"
  shows "\<exists>r s. sample_read p now clk pg stat (read_io_counters os p) (map_of st p) (map_of pv p) =
            Inr (r, s) \<and>
         map_of st' p = Some r \<and> map_of pv' p = Some s"
  using sample_loop_read [OF assms(2,3,4) sample_once_loop [OF assms(1)]] .

lemma sample_once_empty:
  "pids_in_service_cgroup os service = [] \<Longrightarrow>
   sample_once os service now clk pg reg = Inr (0, reg)"
  by (simp add: sample_once_def)

text \<open>What the body of the loop leaves in the two dictionaries.\<close>

lemma sample_read_parts:
  assumes "sample_read p now clk pg (nm, pp, ticks, rss) io found prev = Inr (r, s)"
  shows "\<exists>c d x m.
           derive_rates prev now clk ticks (map_option fst io) (map_option snd io) =
             Inr (c, d, x) \<and>
           float_of_int (rss * pg) = Inr m \<and>
           r = (case found of None \<Rightarrow> new_ProcessStats p nm pp now
                | Some r0 \<Rightarrow> r0\<lparr>last_seen := now\<rparr>)
               \<lparr>current_cpu := snd (clamp_rate c),
                current_disk := snd (clamp_rate d),
                current_xfer := snd (clamp_rate x),
                current_mem := m,
                cpu := add (cpu (case found of None \<Rightarrow> new_ProcessStats p nm pp now
                                 | Some r0 \<Rightarrow> r0\<lparr>last_seen := now\<rparr>)) (fst (clamp_rate c)),
                mem := add (mem (case found of None \<Rightarrow> new_ProcessStats p nm pp now
                                 | Some r0 \<Rightarrow> r0\<lparr>last_seen := now\<rparr>)) (Some m),
                disk := add (disk (case found of None \<Rightarrow> new_ProcessStats p nm pp now
                                 | Some r0 \<Rightarrow> r0\<lparr>last_seen := now\<rparr>)) (fst (clamp_rate d)),
                xfer := add (xfer (case found of None \<Rightarrow> new_ProcessStats p nm pp now
                                 | Some r0 \<Rightarrow> r0\<lparr>last_seen := now\<rparr>)) (fst (clamp_rate x))\<rparr> \<and>
           s = next_prev prev ticks (map_option fst io) (map_option snd io) now"
  using assms by (auto simp: sample_read_def Let_def and_then_Inr)

text \<open>
  The body of the loop raises only for zero ticks per second or for an integer too
  large for a float.
\<close>

lemma sample_read_returns:
  assumes "clk \<noteq> 0" and "\<bar>rss * pg\<bar> < 2 ^ 1023"
    and "\<And>pv. prev = Some pv \<Longrightarrow> \<bar>ticks - cpu_ticks pv\<bar> < 2 ^ 1023"
    and "\<And>pv d x. prev = Some pv \<Longrightarrow> io = Some (d, x) \<Longrightarrow>
           \<bar>d - disk_bytes pv\<bar> < 2 ^ 1023 \<and> \<bar>x - xfer_bytes pv\<bar> < 2 ^ 1023"
  shows "\<exists>r s. sample_read p now clk pg (nm, pp, ticks, rss) io found prev = Inr (r, s)"
proof -
  have rates: "\<exists>c d x. derive_rates prev now clk ticks (map_option fst io) (map_option snd io) =
                 Inr (c, d, x)"
  proof (cases prev)
    case None
    then show ?thesis by (simp add: derive_rates_def)
  next
    case (Some pv)
    let ?dt = "fsub now (timestamp pv)"
    show ?thesis
    proof (cases "fgt ?dt (Fin 0)")
      case False
      with Some show ?thesis by (simp add: derive_rates_def)
    next
      case True
      from int_truediv_returns [OF assms(1) assms(3) [OF Some]] obtain v where
        q: "int_truediv (ticks - cpu_ticks pv) clk = Inr (Fin v)" by blast
      from fdiv_returns [OF True] obtain q' where q': "fdiv (Fin v) ?dt = Inr q'" by blast
      have "\<exists>d x. io_rate (map_option fst io) (disk_bytes pv) ?dt = Inr d \<and>
                  io_rate (map_option snd io) (xfer_bytes pv) ?dt = Inr x"
      proof (cases io)
        case None
        then show ?thesis by (simp add: io_rate_def)
      next
        case (Some dx)
        obtain d x where dx: "dx = (d, x)" by (cases dx)
        from assms(4) [OF \<open>prev = Some pv\<close> Some [unfolded dx]]
          int_div_float_returns [OF _ True]
        obtain rd rx where "int_div_float (d - disk_bytes pv) ?dt = Inr rd"
          "int_div_float (x - xfer_bytes pv) ?dt = Inr rx"
          by blast
        with Some dx show ?thesis by (simp add: io_rate_def and_then_simps)
      qed
      with Some True q q' show ?thesis
        by (auto simp: derive_rates_def Let_def and_then_simps)
    qed
  qed
  from float_of_int_returns [OF assms(2)] obtain m where "float_of_int (rss * pg) = Inr (Fin m)"
    by blast
  with rates show ?thesis
    by (auto simp: sample_read_def Let_def and_then_simps)
qed

text \<open>The two dictionaries of a session hold the same pids, in the same order.\<close>

lemma sample_loop_keys:
  "map fst st = map fst pv \<Longrightarrow> sample_loop os now clk pg ps (st, pv) = Inr (st', pv') \<Longrightarrow>
   map fst st' = map fst pv'"
proof (induction ps arbitrary: st pv)
  case Nil
  then show ?case by simp
next
  case (Cons q ps)
  show ?case
  proof (cases "read_stat os q")
    case None
    with Cons show ?thesis by simp
  next
    case (Some stat)
    with Cons.prems obtain r s where
      rest: "sample_loop os now clk pg ps (AList.update q r st, AList.update q s pv) =
               Inr (st', pv')"
      by (auto simp: and_then_Inr)
    have "map fst (AList.update q r st) = map fst (AList.update q s pv)"
      using Cons.prems(1) by (simp add: update_keys)
    from Cons.IH [OF this rest] show ?thesis .
  qed
qed

lemma run_passes_keys:
  "map fst st = map fst pv \<Longrightarrow> run_passes service clk pg passes (st, pv) = Inr (st', pv') \<Longrightarrow>
   map fst st' = map fst pv'"
proof (induction passes arbitrary: st pv)
  case Nil
  then show ?case by simp
next
  case (Cons pass passes)
  obtain now os where pass: "pass = (now, os)" by (cases pass)
  from Cons.prems(2) obtain n st1 pv1 where
    one: "sample_once os service now clk pg (st, pv) = Inr (n, st1, pv1)"
    and rest: "run_passes service clk pg passes (st1, pv1) = Inr (st', pv')"
    by (auto simp: pass and_then_Inr)
  from sample_loop_keys [OF Cons.prems(1) sample_once_loop [OF one]]
  have "map fst st1 = map fst pv1" .
  from Cons.IH [OF this rest] show ?case .
qed

lemma session_record_with_snapshot:
  assumes "run_passes service clk pg passes ([], []) = Inr (stats, prevs)"
  shows "(map_of stats p = None) = (map_of prevs p = None)"
proof -
  from run_passes_keys [OF _ assms] have "map fst stats = map fst prevs" by simp
  then show ?thesis by (simp add: map_of_eq_None_iff flip: set_map)
qed

section \<open>The example session, evaluated\<close>

lemmas pass_defs = sample_once_def sample_read_def derive_rates_def io_rate_def next_prev_def
  and_then_def one_process_def new_ProcessStats_def new_accumulator_def max0_def fgt_def
  fsub_def int_truediv_def int_div_float_def float_of_int_def

lemma example_pass_0:
  "sample_once (one_process 100 ''worker'' 1 0 10 (Some (1000, 5000))) ''svc'' (Fin 0) 100 4096
     ([], []) = Inr (1, example_reg_0)"
  by (simp add: example_reg_0_def pass_defs round64_values)

lemma example_pass_1:
  "sample_once (one_process 100 ''renamed'' 7 50 10 None) ''svc'' (Fin 1) 100 4096
     example_reg_0 = Inr (1, example_reg_1)"
  by (simp add: example_reg_0_def example_reg_1_def pass_defs round64_values)

lemma example_pass_2:
  "sample_once (one_process 100 ''renamed'' 7 150 10 (Some (1400, 5600))) ''svc'' (Fin 2) 100 4096
     example_reg_1 = Inr (1, example_reg_2)"
  by (simp add: example_reg_1_def example_reg_2_def pass_defs round64_values)


section \<open>The claims about a pass\<close>

lemma sample_read_snapshot:
  "sample_read p now clk pg (nm, pp, ticks, rss) io found prev = Inr (r, s) \<Longrightarrow>
   s = next_prev prev ticks (map_option fst io) (map_option snd io) now"
  by (auto dest: sample_read_parts)

lemma sample_read_identity:
  "sample_read p now clk pg (nm, pp, ticks, rss) io (Some r0) prev = Inr (r, s) \<Longrightarrow>
   pid r = pid r0 \<and> name r = name r0 \<and> ppid r = ppid r0 \<and>
   first_seen r = first_seen r0 \<and> last_seen r = now"
  by (auto dest: sample_read_parts)

lemma sample_read_rates:
  "sample_read p now clk pg (nm, pp, ticks, rss) io (Some r0) prev = Inr (r, s) \<Longrightarrow>
   \<exists>c d x. derive_rates prev now clk ticks (map_option fst io) (map_option snd io) =
             Inr (c, d, x) \<and>
     current_cpu r = snd (clamp_rate c) \<and> cpu r = add (cpu r0) (fst (clamp_rate c)) \<and>
     current_disk r = snd (clamp_rate d) \<and> disk r = add (disk r0) (fst (clamp_rate d)) \<and>
     current_xfer r = snd (clamp_rate x) \<and> xfer r = add (xfer r0) (fst (clamp_rate x))"
  by (auto dest: sample_read_parts)

subsection \<open>C3: the snapshot kept for the next pass\<close>

text \<open>
  Claim C3. After a pass in which the stat read of a pid succeeded, the snapshot stored
  for the pid has the timestamp of the pass and the cpu ticks of the read, in every
  case. Its disk and transfer byte counts are those of the read when the I/O read
  produced them, and otherwise the ones stored before the pass, unchanged.
\<close>

theorem snapshot_carry_forward:
  assumes "sample_once os service now clk pg (stats, prevs) = Inr (n, stats', prevs')"
    and "distinct (pids_in_service_cgroup os service)"
    and "p \<in> set (pids_in_service_cgroup os service)"
    and "read_stat os p = Some (nm, pp, ticks, rss)"
  shows "\<exists>s. map_of prevs' p = Some s \<and> timestamp s = now \<and> cpu_ticks s = ticks \<and>
           (\<forall>d x. read_io_counters os p = Some (d, x) \<longrightarrow>
                    disk_bytes s = d \<and> xfer_bytes s = x) \<and>
           (\<forall>old. read_io_counters os p = None \<and> map_of prevs p = Some old \<longrightarrow>
                    disk_bytes s = disk_bytes old \<and> xfer_bytes s = xfer_bytes old)"
proof -
  from sample_once_read [OF assms] obtain r s where
    rd: "sample_read p now clk pg (nm, pp, ticks, rss) (read_io_counters os p)
           (map_of stats p) (map_of prevs p) = Inr (r, s)"
    and s: "map_of prevs' p = Some s"
    by blast
  from sample_read_snapshot [OF rd] have
    "s = next_prev (map_of prevs p) ticks (map_option fst (read_io_counters os p))
           (map_option snd (read_io_counters os p)) now" .
  then have "timestamp s = now \<and> cpu_ticks s = ticks \<and>
           (\<forall>d x. read_io_counters os p = Some (d, x) \<longrightarrow>
                    disk_bytes s = d \<and> xfer_bytes s = x) \<and>
           (\<forall>old. read_io_counters os p = None \<and> map_of prevs p = Some old \<longrightarrow>
                    disk_bytes s = disk_bytes old \<and> xfer_bytes s = xfer_bytes old)"
    by (auto simp: next_prev_def split: option.splits)
  with s show ?thesis by blast
qed

text \<open>
  The second and the third pass of the example session: the I/O read fails at \<open>t = 1\<close>
  and the byte counts of \<open>t = 0\<close> stay; it succeeds at \<open>t = 2\<close> and they are replaced.
\<close>

theorem snapshot_carry_forward_witness:
  "(\<exists>s. map_of (snd example_reg_1) 100 = Some s \<and> timestamp s = Fin 1 \<and> cpu_ticks s = 50 \<and>
        disk_bytes s = 1000 \<and> xfer_bytes s = 5000) \<and>
   (\<exists>s. map_of (snd example_reg_2) 100 = Some s \<and> timestamp s = Fin 2 \<and> cpu_ticks s = 150 \<and>
        disk_bytes s = 1400 \<and> xfer_bytes s = 5600)"
proof -
  have e1: "sample_once (one_process 100 ''renamed'' 7 50 10 None) ''svc'' (Fin 1) 100 4096
     (fst example_reg_0, snd example_reg_0) = Inr (1, fst example_reg_1, snd example_reg_1)"
    using example_pass_1 by simp
  have e2: "sample_once (one_process 100 ''renamed'' 7 150 10 (Some (1400, 5600))) ''svc''
     (Fin 2) 100 4096 (fst example_reg_1, snd example_reg_1) =
     Inr (1, fst example_reg_2, snd example_reg_2)"
    using example_pass_2 by simp
  have "\<exists>s. map_of (snd example_reg_1) 100 = Some s \<and> timestamp s = Fin 1 \<and> cpu_ticks s = 50 \<and>
        disk_bytes s = 1000 \<and> xfer_bytes s = 5000"
    using snapshot_carry_forward [OF e1, where p = 100 and nm = "''renamed''" and pp = 7
        and ticks = 50 and rss = 10]
    by (simp add: one_process_def example_reg_0_def)
  moreover
  have "\<exists>s. map_of (snd example_reg_2) 100 = Some s \<and> timestamp s = Fin 2 \<and> cpu_ticks s = 150 \<and>
        disk_bytes s = 1400 \<and> xfer_bytes s = 5600"
    using snapshot_carry_forward [OF e2, where p = 100 and nm = "''renamed''" and pp = 7
        and ticks = 150 and rss = 10]
    by (simp add: one_process_def)
  ultimately show ?thesis by blast
qed

subsection \<open>C2: the identity fields of a record\<close>

text \<open>
  Claim C2, amended. For a pid already present in the registry, a pass in which the pid
  is read leaves the stored \<open>name\<close> and \<open>ppid\<close>, like \<open>pid\<close> and \<open>first_seen\<close>, at their
  first-observed values, whatever the read returned; it sets \<open>last_seen\<close> to the time of
  the pass.
\<close>

theorem identity_kept:
  assumes "sample_once os service now clk pg (stats, prevs) = Inr (n, stats', prevs')"
    and "distinct (pids_in_service_cgroup os service)"
    and "p \<in> set (pids_in_service_cgroup os service)"
    and "read_stat os p = Some (nm, pp, ticks, rss)"
    and "map_of stats p = Some r0"
  shows "\<exists>r. map_of stats' p = Some r \<and> pid r = pid r0 \<and> name r = name r0 \<and>
              ppid r = ppid r0 \<and> first_seen r = first_seen r0 \<and> last_seen r = now"
proof -
  from sample_once_read [OF assms(1-4)] assms(5) obtain r s where
    rd: "sample_read p now clk pg (nm, pp, ticks, rss) (read_io_counters os p)
           (Some r0) (map_of prevs p) = Inr (r, s)"
    and r: "map_of stats' p = Some r"
    by auto
  from sample_read_identity [OF rd] r show ?thesis by blast
qed

text \<open>The second pass of the example session reads the name \<open>renamed\<close> and the parent 7.\<close>

theorem identity_kept_witness:
  "\<exists>r. map_of (fst example_reg_1) 100 = Some r \<and> pid r = 100 \<and> name r = ''worker'' \<and>
       ppid r = 1 \<and> first_seen r = Fin 0 \<and> last_seen r = Fin 1"
proof -
  have e1: "sample_once (one_process 100 ''renamed'' 7 50 10 None) ''svc'' (Fin 1) 100 4096
     (fst example_reg_0, snd example_reg_0) = Inr (1, fst example_reg_1, snd example_reg_1)"
    using example_pass_1 by simp
  show ?thesis
    using identity_kept [OF e1, where p = 100 and nm = "''renamed''" and pp = 7
        and ticks = 50 and rss = 10]
    by (simp add: one_process_def example_reg_0_def)
qed

text \<open>
  Claim C2 as stated fails: the record of pid 100 was created with the name \<open>worker\<close> and
  the parent 1; the pass at \<open>t = 1\<close> reads the name \<open>renamed\<close> and the parent 7, and the
  stored name and parent are still \<open>worker\<close> and 1.
\<close>

theorem name_not_refreshed:
  "read_stat (one_process 100 ''renamed'' 7 50 10 None) 100 = Some (''renamed'', 7, 50, 10) \<and>
   sample_once (one_process 100 ''renamed'' 7 50 10 None) ''svc'' (Fin 1) 100 4096
     example_reg_0 = Inr (1, example_reg_1) \<and>
   map_option name (map_of (fst example_reg_1) 100) = Some ''worker'' \<and>
   map_option ppid (map_of (fst example_reg_1) 100) = Some 1"
  using example_pass_1 by (simp add: one_process_def example_reg_1_def)

subsection \<open>C1: the rate after a failed I/O read\<close>

text \<open>
  Claim C1, amended. For a pid whose I/O counters are read at \<open>t = 0\<close> with 1000 disk
  bytes, whose I/O read fails at \<open>t = 1\<close> while its stat read succeeds, and whose I/O
  read succeeds at \<open>t = 2\<close> with 1400 disk bytes, the disk rate computed at \<open>t = 2\<close> is
  the byte delta against the last successful I/O snapshot divided by the time since the
  pass at \<open>t = 1\<close>, which refreshed the stored timestamp: \<open>(1400 - 1000) / (2 - 1)\<close>,
  400 bytes per second.
\<close>

theorem carry_forward_rate:
  assumes "sample_once os0 service (Fin 0) clk pg reg0 = Inr (n0, reg1)"
    and "sample_once os1 service (Fin 1) clk pg reg1 = Inr (n1, reg2)"
    and "sample_once os2 service (Fin 2) clk pg reg2 = Inr (n2, reg3)"
    and "distinct (pids_in_service_cgroup os0 service)"
    and "distinct (pids_in_service_cgroup os1 service)"
    and "distinct (pids_in_service_cgroup os2 service)"
    and "p \<in> set (pids_in_service_cgroup os0 service)"
    and "p \<in> set (pids_in_service_cgroup os1 service)"
    and "p \<in> set (pids_in_service_cgroup os2 service)"
    and "read_stat os0 p = Some stat0"
    and "read_stat os1 p = Some stat1"
    and "read_stat os2 p = Some stat2"
    and "read_io_counters os0 p = Some (1000, x0)"
    and "read_io_counters os1 p = None"
    and "read_io_counters os2 p = Some (1400, x2)"
  shows "\<exists>r2 r3. map_of (fst reg2) p = Some r2 \<and> map_of (fst reg3) p = Some r3 \<and>
           current_disk r3 = Fin 400 \<and> disk r3 = add (disk r2) (Some (Fin 400))"
proof -
  obtain nm0 pp0 t0 m0 where st0: "stat0 = (nm0, pp0, t0, m0)" by (cases stat0)
  obtain nm1 pp1 t1 m1 where st1: "stat1 = (nm1, pp1, t1, m1)" by (cases stat1)
  obtain nm2 pp2 t2 m2 where st2: "stat2 = (nm2, pp2, t2, m2)" by (cases stat2)
  obtain a0 b0 where reg0: "reg0 = (a0, b0)" by (cases reg0)
  obtain a1 b1 where reg1: "reg1 = (a1, b1)" by (cases reg1)
  obtain a2 b2 where reg2: "reg2 = (a2, b2)" by (cases reg2)
  obtain a3 b3 where reg3: "reg3 = (a3, b3)" by (cases reg3)
  from sample_once_read [OF assms(1) [unfolded reg0 reg1] assms(4) assms(7) assms(10)]
  obtain r1 s1 where
    rd0: "sample_read p (Fin 0) clk pg stat0 (read_io_counters os0 p) (map_of a0 p) (map_of b0 p)
            = Inr (r1, s1)"
    and s1: "map_of b1 p = Some s1"
    by blast
  from sample_read_snapshot [OF rd0 [unfolded st0]] assms(13)
  have s1v: "disk_bytes s1 = 1000" "xfer_bytes s1 = x0"
    by (simp_all add: next_prev_def)
  from sample_once_read [OF assms(2) [unfolded reg1 reg2] assms(5) assms(8) assms(11)] s1
  obtain r2 s2 where
    rd1: "sample_read p (Fin 1) clk pg stat1 (read_io_counters os1 p) (map_of a1 p) (Some s1)
            = Inr (r2, s2)"
    and r2: "map_of a2 p = Some r2" and s2: "map_of b2 p = Some s2"
    by auto
  from sample_read_snapshot [OF rd1 [unfolded st1]] assms(14) s1v
  have s2v: "disk_bytes s2 = 1000" "timestamp s2 = Fin 1"
    by (simp_all add: next_prev_def)
  from sample_once_read [OF assms(3) [unfolded reg2 reg3] assms(6) assms(9) assms(12)] r2 s2
  obtain r3 s3 where
    rd2: "sample_read p (Fin 2) clk pg stat2 (read_io_counters os2 p) (Some r2) (Some s2)
            = Inr (r3, s3)"
    and r3: "map_of a3 p = Some r3"
    by auto
  from sample_read_rates [OF rd2 [unfolded st2]] assms(15) obtain c d x where
    dr: "derive_rates (Some s2) (Fin 2) clk t2 (Some 1400) (Some x2) = Inr (c, d, x)"
    and cur: "current_disk r3 = snd (clamp_rate d)"
    and acc: "disk r3 = add (disk r2) (fst (clamp_rate d))"
    by auto
  have dt: "fsub (Fin 2) (Fin 1) = Fin 1"
    by (simp add: fsub_def round64_1)
  have "int_div_float 400 (Fin 1) = Inr (Fin 400)"
    by (simp add: int_div_float_def float_of_int_def round64_400)
  with dr s2v dt have "d = Some (Fin 400)"
    by (auto simp: derive_rates_def io_rate_def fgt_def Let_def and_then_simps and_then_Inr)
  then have "clamp_rate d = (Some (Fin 400), Fin 400)"
    by (simp add: max0_def fgt_def)
  with cur acc r2 r3 reg2 reg3 show ?thesis by simp
qed

text \<open>The example session: pid 100 with 1000, no and 1400 disk bytes at \<open>t = 0, 1, 2\<close>.\<close>

theorem carry_forward_rate_witness:
  "\<exists>r2 r3. map_of (fst example_reg_1) 100 = Some r2 \<and> map_of (fst example_reg_2) 100 = Some r3 \<and>
     current_disk r3 = Fin 400 \<and> disk r3 = add (disk r2) (Some (Fin 400))"
  using carry_forward_rate [OF example_pass_0 example_pass_1 example_pass_2, where p = 100]
  by (simp add: one_process_def)

text \<open>
  Claim C1 as stated fails: in the example session the disk rate of the pass at
  \<open>t = 2\<close> is 400 bytes per second, not 200.
\<close>

theorem disk_rate_after_failed_read:
  "run_passes ''svc'' 100 4096
     [(Fin 0, one_process 100 ''worker'' 1 0 10 (Some (1000, 5000))),
      (Fin 1, one_process 100 ''renamed'' 7 50 10 None),
      (Fin 2, one_process 100 ''renamed'' 7 150 10 (Some (1400, 5600)))] ([], []) =
     Inr example_reg_2 \<and>
   map_option current_disk (map_of (fst example_reg_2) 100) = Some (Fin 400) \<and>
   map_option disk (map_of (fst example_reg_2) 100) =
     Some \<lparr>minimum = Fin 400, maximum = Fin 400, total_sum = Fin 400, count_n = 1\<rparr> \<and>
   Fin 400 \<noteq> Fin 200"
  by (simp add: example_pass_0 example_pass_1 example_pass_2 and_then_def example_reg_2_def)

lemma int_div_float_nonneg:
  "0 \<le> n \<Longrightarrow> fgt dt (Fin 0) \<Longrightarrow> int_div_float n dt = Inr r \<Longrightarrow> fle (Fin 0) r"
proof -
  assume n: "0 \<le> n" and dt: "fgt dt (Fin 0)" and r: "int_div_float n dt = Inr r"
  from r obtain y where y: "float_of_int n = Inr y" and d: "fdiv y dt = Inr r"
    by (cases "float_of_int n") (simp_all add: int_div_float_def)
  from float_of_int_nonneg [OF n y] obtain v where "y = Fin v" "0 \<le> v" by blast
  with d dt show ?thesis by (auto intro: fdiv_nonneg)
qed


text \<open>The three rates of a pass with a snapshot and a positive elapsed time.\<close>

lemma derive_rates_Some:
  assumes "derive_rates (Some prev) now clk ticks (Some d) (Some x) = Inr (c, dr, xr)"
    and "fgt (fsub now (timestamp prev)) (Fin 0)"
  shows "\<exists>q q' rd rx.
           int_truediv (ticks - cpu_ticks prev) clk = Inr q \<and>
           fdiv q (fsub now (timestamp prev)) = Inr q' \<and>
           int_div_float (d - disk_bytes prev) (fsub now (timestamp prev)) = Inr rd \<and>
           int_div_float (x - xfer_bytes prev) (fsub now (timestamp prev)) = Inr rx \<and>
           c = Some (fmul q' (Fin 100)) \<and> dr = Some rd \<and> xr = Some rx"
  using assms by (auto simp: derive_rates_def io_rate_def Let_def and_then_Inr)



subsection \<open>C5: the rates are clamped at zero\<close>



lemma example_pass_a:
  "sample_once (one_process 100 ''worker'' 1 50 10 None) ''svc'' (Fin 1) 100 4096
     ([], []) = Inr (1, example_reg_a)"
  by (simp add: example_reg_a_def pass_defs round64_values)

lemma example_pass_b:
  "sample_once (one_process 100 ''worker'' 1 150 10 (Some (1400, 5600))) ''svc'' (Fin 2) 100 4096
     example_reg_a = Inr (1, example_reg_b)"
  by (simp add: example_reg_a_def example_reg_b_def pass_defs round64_values)

lemma example_pass_c:
  "sample_once (one_process 100 ''worker'' 1 60 10 (Some (1100, 5100))) ''svc'' (Fin 1) 100 4096
     example_reg_1 = Inr (1, example_reg_c)"
  by (simp add: example_reg_1_def example_reg_c_def pass_defs round64_values)

subsection \<open>C4: a first read without I/O counters\<close>

text \<open>
  Claim C4. If the first successful stat read of a pid happens in a pass where its I/O
  read fails, the stored snapshot has 0 disk bytes and 0 transfer bytes. In the next
  pass that reads the pid, with \<open>dt > 0\<close> and an I/O read returning the totals \<open>D\<close> and
  \<open>X\<close> (cumulative counts, not negative), the rates are \<open>D / dt\<close> and \<open>X / dt\<close>: they are
  present, stored as current values and given to the accumulators.
\<close>

theorem first_read_without_io:
  assumes "sample_once os1 service now1 clk pg (stats, prevs) = Inr (n1, reg1)"
    and "sample_once os2 service now2 clk pg reg1 = Inr (n2, reg2)"
    and "distinct (pids_in_service_cgroup os1 service)"
    and "distinct (pids_in_service_cgroup os2 service)"
    and "p \<in> set (pids_in_service_cgroup os1 service)"
    and "p \<in> set (pids_in_service_cgroup os2 service)"
    and "map_of prevs p = None"
    and "read_stat os1 p = Some stat1"
    and "read_io_counters os1 p = None"
    and "read_stat os2 p = Some stat2"
    and "read_io_counters os2 p = Some (D, X)"
    and "0 \<le> D" and "0 \<le> X"
    and "fgt (fsub now2 now1) (Fin 0)"
  shows "\<exists>s1 r1 r2.
           map_of (snd reg1) p = Some s1 \<and> disk_bytes s1 = 0 \<and> xfer_bytes s1 = 0 \<and>
           map_of (fst reg1) p = Some r1 \<and> map_of (fst reg2) p = Some r2 \<and>
           int_div_float D (fsub now2 now1) = Inr (current_disk r2) \<and>
           int_div_float X (fsub now2 now1) = Inr (current_xfer r2) \<and>
           disk r2 = add (disk r1) (Some (current_disk r2)) \<and>
           xfer r2 = add (xfer r1) (Some (current_xfer r2))"
proof -
  obtain nm1 pp1 t1 m1 where st1: "stat1 = (nm1, pp1, t1, m1)" by (cases stat1)
  obtain nm2 pp2 t2 m2 where st2: "stat2 = (nm2, pp2, t2, m2)" by (cases stat2)
  obtain a1 b1 where reg1: "reg1 = (a1, b1)" by (cases reg1)
  obtain a2 b2 where reg2: "reg2 = (a2, b2)" by (cases reg2)
  from sample_once_read [OF assms(1) [unfolded reg1] assms(3) assms(5) assms(8)] assms(7,9)
  obtain r1 s1 where
    rd1: "sample_read p now1 clk pg stat1 None (map_of stats p) None = Inr (r1, s1)"
    and r1: "map_of a1 p = Some r1" and s1: "map_of b1 p = Some s1"
    by auto
  from sample_read_snapshot [OF rd1 [unfolded st1]]
  have s1v: "disk_bytes s1 = 0" "xfer_bytes s1 = 0" "timestamp s1 = now1"
    by (simp_all add: next_prev_def)
  from sample_once_read [OF assms(2) [unfolded reg1 reg2] assms(4) assms(6) assms(10)]
    r1 s1 assms(11)
  obtain r2 s2 where
    rd2: "sample_read p now2 clk pg stat2 (Some (D, X)) (Some r1) (Some s1) = Inr (r2, s2)"
    and r2: "map_of a2 p = Some r2"
    by auto
  from sample_read_rates [OF rd2 [unfolded st2]] obtain c dr xr where
    rates: "derive_rates (Some s1) now2 clk t2 (Some D) (Some X) = Inr (c, dr, xr)"
    and cur: "current_disk r2 = snd (clamp_rate dr)" "current_xfer r2 = snd (clamp_rate xr)"
    and acc: "disk r2 = add (disk r1) (fst (clamp_rate dr))"
      "xfer r2 = add (xfer r1) (fst (clamp_rate xr))"
    by auto
  have dt: "fgt (fsub now2 (timestamp s1)) (Fin 0)"
    using assms(14) s1v by simp
  from derive_rates_Some [OF rates dt] s1v obtain rd rx where
    rd: "int_div_float D (fsub now2 now1) = Inr rd"
    and rx: "int_div_float X (fsub now2 now1) = Inr rx"
    and dr: "dr = Some rd" and xr: "xr = Some rx"
    by auto
  have "max0 rd = rd"
    using int_div_float_nonneg [OF assms(12) assms(14) rd] by (rule max0_nonneg)
  moreover have "max0 rx = rx"
    using int_div_float_nonneg [OF assms(13) assms(14) rx] by (rule max0_nonneg)
  ultimately show ?thesis
    using r1 s1 s1v r2 rd rx cur acc dr xr reg1 reg2 by simp
qed

text \<open>
  Pid 100 is first read at \<open>t = 1\<close> without I/O counters, then at \<open>t = 2\<close> with the totals
  1400 and 5600: the rates are 1400 and 5600 bytes per second.
\<close>

theorem first_read_without_io_witness:
  "\<exists>s1 r1 r2.
     map_of (snd example_reg_a) 100 = Some s1 \<and> disk_bytes s1 = 0 \<and> xfer_bytes s1 = 0 \<and>
     map_of (fst example_reg_a) 100 = Some r1 \<and> map_of (fst example_reg_b) 100 = Some r2 \<and>
     int_div_float 1400 (Fin 1) = Inr (current_disk r2) \<and>
     int_div_float 5600 (Fin 1) = Inr (current_xfer r2) \<and>
     current_disk r2 = Fin 1400 \<and> current_xfer r2 = Fin 5600 \<and>
     disk r2 = add (disk r1) (Some (current_disk r2)) \<and>
     xfer r2 = add (xfer r1) (Some (current_xfer r2))"
proof -
  have dt: "fsub (Fin 2) (Fin 1) = Fin 1"
    by (simp add: fsub_def round64_1)
  have "\<exists>s1 r1 r2.
     map_of (snd example_reg_a) 100 = Some s1 \<and> disk_bytes s1 = 0 \<and> xfer_bytes s1 = 0 \<and>
     map_of (fst example_reg_a) 100 = Some r1 \<and> map_of (fst example_reg_b) 100 = Some r2 \<and>
     int_div_float 1400 (Fin 1) = Inr (current_disk r2) \<and>
     int_div_float 5600 (Fin 1) = Inr (current_xfer r2) \<and>
     disk r2 = add (disk r1) (Some (current_disk r2)) \<and>
     xfer r2 = add (xfer r1) (Some (current_xfer r2))"
    using first_read_without_io [OF example_pass_a example_pass_b, where p = 100
        and D = 1400 and X = 5600]
    by (simp add: one_process_def dt fgt_def)
  then show ?thesis
    by (auto simp: example_reg_b_def)
qed

subsection \<open>C9: no rate without elapsed time\<close>

text \<open>
  Claim C9. For a pid with a stored snapshot, if \<open>dt = now - prev.timestamp\<close> is at most
  0, the three rates of the pass are absent, and the cpu, disk and transfer
  accumulators of the pid are after the pass what they were before it: none of them
  receives a value.
\<close>

theorem no_rate_without_elapsed_time:
  assumes "sample_once os service now clk pg (stats, prevs) = Inr (n, stats', prevs')"
    and "distinct (pids_in_service_cgroup os service)"
    and "p \<in> set (pids_in_service_cgroup os service)"
    and "read_stat os p = Some (nm, pp, ticks, rss)"
    and "map_of stats p = Some r0"
    and "map_of prevs p = Some prev"
    and "fle (fsub now (timestamp prev)) (Fin 0)"
  shows "derive_rates (Some prev) now clk ticks
           (map_option fst (read_io_counters os p)) (map_option snd (read_io_counters os p)) =
           Inr (None, None, None) \<and>
         (\<exists>r. map_of stats' p = Some r \<and>
              cpu r = cpu r0 \<and> disk r = disk r0 \<and> xfer r = xfer r0)"
proof -
  have none: "derive_rates (Some prev) now clk ticks dtot xtot = Inr (None, None, None)"
    for dtot xtot
    using fle_not_fgt [OF assms(7)] by (simp add: derive_rates_def)
  from sample_once_read [OF assms(1-4)] assms(5,6) obtain r s where
    rd: "sample_read p now clk pg (nm, pp, ticks, rss) (read_io_counters os p)
           (Some r0) (Some prev) = Inr (r, s)"
    and r: "map_of stats' p = Some r"
    by auto
  from sample_read_rates [OF rd] none
  have "cpu r = cpu r0 \<and> disk r = disk r0 \<and> xfer r = xfer r0"
    by auto
  with none r show ?thesis by blast
qed

text \<open>A second pass at \<open>t = 1\<close> after the pass at \<open>t = 1\<close> of the example session.\<close>

theorem no_rate_without_elapsed_time_witness:
  "fle (fsub (Fin 1) (Fin 1)) (Fin 0) \<and>
   derive_rates (Some \<lparr>cpu_ticks = 50, disk_bytes = 1000, xfer_bytes = 5000, timestamp = Fin 1\<rparr>)
     (Fin 1) 100 60 (Some 1100) (Some 5100) = Inr (None, None, None) \<and>
   (\<exists>r. map_of (fst example_reg_c) 100 = Some r \<and>
        cpu r = \<lparr>minimum = Fin 50, maximum = Fin 50, total_sum = Fin 50, count_n = 1\<rparr> \<and>
        disk r = new_accumulator \<and> xfer r = new_accumulator)"
proof -
  have ec: "sample_once (one_process 100 ''worker'' 1 60 10 (Some (1100, 5100))) ''svc'' (Fin 1)
     100 4096 (fst example_reg_1, snd example_reg_1) =
     Inr (1, fst example_reg_c, snd example_reg_c)"
    using example_pass_c by simp
  have dt: "fle (fsub (Fin 1) (Fin 1)) (Fin 0)"
    by (simp add: fsub_def round64_0)
  show ?thesis
    using dt no_rate_without_elapsed_time [OF ec, where p = 100 and nm = "''worker''"
        and pp = 1 and ticks = 60 and rss = 10
        and prev = "\<lparr>cpu_ticks = 50, disk_bytes = 1000, xfer_bytes = 5000, timestamp = Fin 1\<rparr>"]
    by (simp add: one_process_def example_reg_1_def new_accumulator_def)
qed

section \<open>Properties of a session\<close>

lemma run_passes_append:
  "run_passes service clk pg (xs @ ys) reg =
   and_then (run_passes service clk pg xs reg) (run_passes service clk pg ys)"
proof (induction xs arbitrary: reg)
  case Nil
  then show ?case by (simp add: and_then_simps)
next
  case (Cons pass xs)
  obtain now os where pass: "pass = (now, os)" by (cases pass)
  show ?case
  proof (cases "sample_once os service now clk pg reg")
    case (Inl e)
    then show ?thesis by (simp add: pass and_then_simps)
  next
    case (Inr res)
    then show ?thesis by (cases res) (simp add: pass and_then_simps Cons.IH)
  qed
qed

lemma run_passes_unread:
  "\<forall>q \<in> set passes. \<not> read_in service p q \<Longrightarrow>
   run_passes service clk pg passes (st, pv) = Inr (st', pv') \<Longrightarrow>
   map_of st' p = map_of st p \<and> map_of pv' p = map_of pv p"
proof (induction passes arbitrary: st pv)
  case Nil
  then show ?case by simp
next
  case (Cons pass passes)
  obtain now os where pass: "pass = (now, os)" by (cases pass)
  from Cons.prems(2) obtain n st1 pv1 where
    one: "sample_once os service now clk pg (st, pv) = Inr (n, st1, pv1)"
    and rest: "run_passes service clk pg passes (st1, pv1) = Inr (st', pv')"
    by (auto simp: pass and_then_Inr)
  from Cons.prems(1) have "\<not> read_in service p (now, os)" by (simp add: pass)
  from sample_once_unread [OF one this] Cons.IH [OF _ rest] Cons.prems(1)
  show ?case by simp
qed

lemma run_passes_empty:
  "\<forall>pass \<in> set passes. pids_in_service_cgroup (snd pass) service = [] \<Longrightarrow>
   run_passes service clk pg passes reg = Inr reg"
  by (induction passes) (auto simp: sample_once_empty and_then_simps)

lemma sample_read_first:
  assumes "sample_read p now clk pg (nm, pp, ticks, rss) io None None = Inr (r, s)"
  shows "cpu r = new_accumulator \<and> disk r = new_accumulator \<and> xfer r = new_accumulator \<and>
         mem r = add new_accumulator (Some (current_mem r)) \<and>
         float_of_int (rss * pg) = Inr (current_mem r)"
  using sample_read_parts [OF assms]
  by (auto simp: derive_rates_def new_ProcessStats_def)

subsection \<open>C8: the first observation of a pid\<close>

text \<open>
  Claim C8. For a pid with no stored snapshot the three rates are absent, while the
  memory value of the read is present. A pid read successfully exactly once during a
  session has count 0 in its cpu, disk and transfer accumulators, each of which reports
  \<open>(0, 0, 0)\<close>, and count 1 in its memory accumulator.
\<close>

theorem read_once:
  assumes "run_passes service clk pg (before @ [(now, os)] @ after) ([], []) = Inr (stats, prevs)"
    and "\<forall>q \<in> set before. \<not> read_in service p q"
    and "\<forall>q \<in> set after. \<not> read_in service p q"
    and "read_in service p (now, os)"
    and "well_formed service (now, os)"
  shows "derive_rates None now clk ticks dtot xtot = Inr (None, None, None) \<and>
         (\<exists>r nm pp t rss.
            map_of stats p = Some r \<and>
            count_n (cpu r) = 0 \<and> count_n (disk r) = 0 \<and> count_n (xfer r) = 0 \<and>
            as_tuple (cpu r) = Inr (Fin 0, Fin 0, Fin 0) \<and>
            as_tuple (disk r) = Inr (Fin 0, Fin 0, Fin 0) \<and>
            as_tuple (xfer r) = Inr (Fin 0, Fin 0, Fin 0) \<and>
            count_n (mem r) = 1 \<and>
            read_stat os p = Some (nm, pp, t, rss) \<and>
            float_of_int (rss * pg) = Inr (current_mem r))"
proof -
  from assms(1) obtain st0 pv0 n st1 pv1 where
    b: "run_passes service clk pg before ([], []) = Inr (st0, pv0)"
    and m: "sample_once os service now clk pg (st0, pv0) = Inr (n, st1, pv1)"
    and a: "run_passes service clk pg after (st1, pv1) = Inr (stats, prevs)"
    by (auto simp: run_passes_append and_then_Inr)
  from run_passes_unread [OF assms(2) b]
  have none: "map_of st0 p = None" "map_of pv0 p = None" by simp_all
  from assms(4) obtain nm pp t rss where
    tr: "p \<in> set (pids_in_service_cgroup os service)"
    and st: "read_stat os p = Some (nm, pp, t, rss)"
    by (cases "read_stat os p") (auto simp: read_in_def)
  from assms(5) have d: "distinct (pids_in_service_cgroup os service)"
    by (simp add: well_formed_def)
  from sample_once_read [OF m d tr st] none obtain r s where
    rd: "sample_read p now clk pg (nm, pp, t, rss) (read_io_counters os p) None None =
           Inr (r, s)"
    and r1: "map_of st1 p = Some r"
    by auto
  from run_passes_unread [OF assms(3) a] r1 have r: "map_of stats p = Some r" by simp
  from sample_read_first [OF rd]
  have "count_n (cpu r) = 0 \<and> count_n (disk r) = 0 \<and> count_n (xfer r) = 0 \<and>
        as_tuple (cpu r) = Inr (Fin 0, Fin 0, Fin 0) \<and>
        as_tuple (disk r) = Inr (Fin 0, Fin 0, Fin 0) \<and>
        as_tuple (xfer r) = Inr (Fin 0, Fin 0, Fin 0) \<and>
        count_n (mem r) = 1 \<and> float_of_int (rss * pg) = Inr (current_mem r)"
    by (simp add: as_tuple_def new_accumulator_def)
  with r st show ?thesis
    by (simp add: derive_rates_def)
qed

text \<open>A session of three passes; pid 100 is in the tracked set of the second only.\<close>

theorem read_once_witness:
  "derive_rates None (Fin 0) 100 0 (Some 1000) (Some 5000) = Inr (None, None, None) \<and>
   (\<exists>r. map_of (fst example_reg_0) 100 = Some r \<and>
      count_n (cpu r) = 0 \<and> count_n (disk r) = 0 \<and> count_n (xfer r) = 0 \<and>
      as_tuple (cpu r) = Inr (Fin 0, Fin 0, Fin 0) \<and>
      as_tuple (disk r) = Inr (Fin 0, Fin 0, Fin 0) \<and>
      as_tuple (xfer r) = Inr (Fin 0, Fin 0, Fin 0) \<and>
      count_n (mem r) = 1 \<and> float_of_int (10 * 4096) = Inr (current_mem r))"
proof -
  have run: "run_passes ''svc'' 100 4096
      ([(Fin (- 1), no_process)] @
       [(Fin 0, one_process 100 ''worker'' 1 0 10 (Some (1000, 5000)))] @
       [(Fin 1, no_process)]) ([], []) = Inr (fst example_reg_0, snd example_reg_0)"
    by (simp add: example_pass_0 and_then_def sample_once_empty no_process_def)
  have b: "\<forall>q \<in> set [(Fin (- 1), no_process)]. \<not> read_in ''svc'' 100 q"
    by (simp add: read_in_def no_process_def)
  have a: "\<forall>q \<in> set [(Fin 1, no_process)]. \<not> read_in ''svc'' 100 q"
    by (simp add: read_in_def no_process_def)
  have m: "read_in ''svc'' 100 (Fin 0, one_process 100 ''worker'' 1 0 10 (Some (1000, 5000)))"
    by (simp add: read_in_def one_process_def)
  have w: "well_formed ''svc'' (Fin 0, one_process 100 ''worker'' 1 0 10 (Some (1000, 5000)))"
    by (simp add: well_formed_def one_process_def)
  show ?thesis
    using read_once [OF run b a m w, where ticks = 0 and dtot = "Some 1000"
        and xtot = "Some 5000"]
    by (auto simp: one_process_def)
qed

subsection \<open>C10: a session without data\<close>

lemma report_rows_length: "report_rows entries = Inr rows \<Longrightarrow> length rows = length entries"
proof (induction entries arbitrary: rows)
  case Nil
  then show ?case by simp
next
  case (Cons entry entries)
  obtain p rec where "entry = (p, rec)" by (cases entry)
  with Cons show ?case by (auto simp: and_then_Inr)
qed

text \<open>
  Claim C10. With a valid interval, a session whose tracked set is empty in every pass
  creates no record: \<^verbatim>\<open>main\<close> returns the exit status 1 and prints no row. A session
  that collected at least one record and printed its report returns the status 0, with
  one row for each record.
\<close>

theorem no_data_outcome:
  assumes "\<not> fle interval (Fin 0)"
    and "\<forall>pass \<in> set passes. pids_in_service_cgroup (snd pass) service = []"
    and "run_passes service clk pg passes' ([], []) = Inr (stats, prevs)"
    and "stats \<noteq> []"
    and "main interval service clk pg passes' = Inr (code, rows)"
  shows "run_passes service clk pg passes ([], []) = Inr ([], []) \<and>
         main interval service clk pg passes = Inr (1, []) \<and>
         code = 0 \<and> length rows = length stats \<and> rows \<noteq> []"
proof -
  have run: "run_passes service clk pg passes ([], []) = Inr ([], [])"
    using assms(2) by (rule run_passes_empty)
  then have "main interval service clk pg passes = Inr (1, [])"
    using assms(1) by (simp add: main_def and_then_simps)
  moreover from assms(1,3,4,5) have "code = 0"
    and "report_rows (sort_key fst stats) = Inr rows"
    by (auto simp: main_def and_then_simps and_then_Inr)
  moreover from report_rows_length [OF this(2)] assms(4)
  have "length rows = length stats \<and> rows \<noteq> []"
    by auto
  ultimately show ?thesis using run by simp
qed

lemma example_report:
  "main (Fin (1 / 2)) ''svc'' 100 4096
     [(Fin 0, one_process 100 ''worker'' 1 0 10 (Some (1000, 5000)))] =
   Inr (0, [\<lparr>row_pid = 100, row_name = ''worker'', row_ppid = 1,
             row_cpu = (Fin 0, Fin 0, Fin 0),
             row_mem_mb = (Fin (5 / 128), Fin (5 / 128), Fin (5 / 128)),
             row_disk = (Fin 0, Fin 0, Fin 0),
             row_xfer = (Fin 0, Fin 0, Fin 0)\<rparr>])"
  by (simp add: main_def example_pass_0 and_then_def example_reg_0_def report_row_of_def
      as_tuple_def float_div_int_def float_of_int_def round64_values)

text \<open>
  Two passes that track nothing, against the session of one pass that reads pid 100:
  its only row shows 40960 bytes of memory as 0.0390625 MB.
\<close>

theorem no_data_outcome_witness:
  "\<not> fle (Fin (1 / 2)) (Fin 0) \<and>
   main (Fin (1 / 2)) ''svc'' 100 4096 [(Fin 0, no_process), (Fin 1, no_process)] = Inr (1, []) \<and>
   main (Fin (1 / 2)) ''svc'' 100 4096
     [(Fin 0, one_process 100 ''worker'' 1 0 10 (Some (1000, 5000)))] =
   Inr (0, [\<lparr>row_pid = 100, row_name = ''worker'', row_ppid = 1,
             row_cpu = (Fin 0, Fin 0, Fin 0),
             row_mem_mb = (Fin (5 / 128), Fin (5 / 128), Fin (5 / 128)),
             row_disk = (Fin 0, Fin 0, Fin 0),
             row_xfer = (Fin 0, Fin 0, Fin 0)\<rparr>])"
proof -
  have i: "\<not> fle (Fin (1 / 2)) (Fin 0)" by simp
  have e: "\<forall>pass \<in> set [(Fin 0, no_process), (Fin 1, no_process)].
             pids_in_service_cgroup (snd pass) ''svc'' = []"
    by (simp add: no_process_def)
  have run: "run_passes ''svc'' 100 4096
      [(Fin 0, one_process 100 ''worker'' 1 0 10 (Some (1000, 5000)))] ([], []) =
      Inr (fst example_reg_0, snd example_reg_0)"
    by (simp add: example_pass_0 and_then_def)
  have ne: "fst example_reg_0 \<noteq> []" by (simp add: example_reg_0_def)
  show ?thesis
    using i no_data_outcome [OF i e run ne example_report] example_report by simp
qed

end
